theory Spec2Isabelle
  imports Main "HOL-Library.Sublist"
begin

section \<open>Data model (purge\_core/models.py)\<close>

text \<open>
  The enumerations of \<^verbatim>\<open>models.py\<close> are datatypes, the pydantic models are records.
  A \<^verbatim>\<open>Path\<close> is the list of its components below the root (every path of a
  \<^verbatim>\<open>WasteItem\<close> is absolute, the validator refuses any other), and \<^verbatim>\<open>str(path)\<close>
  is \<open>path_str\<close>. A \<^verbatim>\<open>datetime\<close> is naive or aware of a time zone, and holds the count
  of microseconds since the first instant the type can hold, \<^verbatim>\<open>datetime.min\<close>, which is
  0001-01-01 00:00:00; \<^verbatim>\<open>timedelta(days=d)\<close> is \<open>d\<close> days of microseconds. The field
  \<^verbatim>\<open>size\<close> is called \<open>size_bytes\<close>, since \<open>size\<close> is a constant of HOL; the
  wall-clock fields \<^verbatim>\<open>timestamp\<close> and \<^verbatim>\<open>duration\<close> of the two reports are left out.
  \<^verbatim>\<open>OSPlatform.ALL\<close> is \<open>ALL_PLATFORMS\<close>, since \<open>ALL\<close> is a quantifier of HOL.
\<close>

datatype os_platform = WINDOWS | LINUX | MACOS | ALL_PLATFORMS

datatype cleanup_category =
    TEMP_FILES | BROWSER_CACHE | BROWSER_COOKIES | BROWSER_HISTORY | SYSTEM_LOGS
  | APPLICATION_LOGS | RECYCLE_BIN | MEMORY_DUMPS | SOFTWARE_CACHE | PACKAGE_CACHE
  | THUMBNAILS | DOWNLOADS | OTHER

datatype safety_level = SAFE | WARNING | DANGEROUS | CRITICAL

type_synonym path = "string list"

datatype datetime = Naive int | Aware int

record waste_item =
  path :: path
  size_bytes :: int
  category :: cleanup_category
  description :: string
  safety_level :: safety_level
  last_accessed :: "datetime option"
  last_modified :: "datetime option"
  owner :: "string option"
  process_locked :: bool
  metadata :: "(string \<times> string) list"

record scanner_config =
  enabled :: bool
  priority :: int
  max_file_size :: "int option"
  min_file_age_days :: int
  exclude_patterns :: "string list"
  include_patterns :: "string list"

record scan_result =
  scan_id :: string
  total_found :: int
  total_size :: int
  items :: "waste_item list"
  errors :: "string list"
  platform :: os_platform

text \<open>One entry of \<^verbatim>\<open>CleanupResult.failed_items\<close>: the dictionary with the keys
  \<^verbatim>\<open>'path'\<close>, \<^verbatim>\<open>'error'\<close> and \<^verbatim>\<open>'scanner'\<close>.\<close>

record failed_item =
  failed_path :: string
  failed_error :: string
  failed_scanner :: string

record cleanup_result =
  cleanup_id :: string
  total_removed :: int
  total_freed :: int
  removed_items :: "waste_item list"
  failed_items :: "failed_item list"
  cleanup_errors :: "string list"

text \<open>Exceptions, each with the text \<^verbatim>\<open>str(e)\<close> gives. \<open>PermissionError\<close> and
  \<open>OSError\<close> are the two classes \<^verbatim>\<open>_safe_remove\<close> handles (the second stands for
  every other subclass of \<^verbatim>\<open>OSError\<close>); \<open>PyException\<close> is any other
  \<^verbatim>\<open>Exception\<close>.\<close>

datatype py_exception = PermissionError string | OSError string | PyException string

fun exception_str :: "py_exception \<Rightarrow> string" where
  "exception_str (PermissionError m) = m"
| "exception_str (OSError m) = m"
| "exception_str (PyException m) = m"

fun join_components :: "string list \<Rightarrow> string" where
  "join_components [] = []"
| "join_components [c] = c"
| "join_components (c # d # cs) = c @ ''/'' @ join_components (d # cs)"

definition path_str :: "path \<Rightarrow> string" where
  "path_str p = ''/'' @ join_components p"

definition timedelta_days :: "int \<Rightarrow> int" where
  "timedelta_days d = d * 86400000000"

section \<open>Filtering policy (BaseScanner.\_should\_include)\<close>

text \<open>
  \<^verbatim>\<open>_should_include\<close> reads the scanner's config, the item, the clock
  (\<^verbatim>\<open>datetime.now()\<close>, a naive datetime: the argument \<open>now\<close> is its count of
  microseconds) and the library's \<^verbatim>\<open>fnmatch.fnmatch\<close> (the argument \<open>fnmatch\<close>, applied
  to the path's string and a pattern). It returns a verdict (\<open>Inr\<close>) or raises (\<open>Inl\<close>).

  \<open>min_age\<close> is \<^verbatim>\<open>datetime.now() - timedelta(days=self.config.min_file_age_days)\<close>.
  \<^verbatim>\<open>timedelta\<close> raises \<^verbatim>\<open>OverflowError\<close> for more than 999999999 days either way, and
  the subtraction raises it when the result is not a datetime, that is before
  \<^verbatim>\<open>datetime.min\<close> or after \<^verbatim>\<open>datetime.max\<close> (9999-12-31 23:59:59.999999, which is
  3652059 days less one microsecond after \<^verbatim>\<open>datetime.min\<close>). \<open>too_recent\<close> is that
  computation followed by the test \<^verbatim>\<open>item.last_modified > min_age\<close>, which raises
  \<^verbatim>\<open>TypeError\<close> for an aware \<^verbatim>\<open>last_modified\<close>, \<open>min_age\<close> being naive.

  The gates come in the order of the source. \<^verbatim>\<open>if item.last_modified\<close> holds for every
  datetime. \<^verbatim>\<open>if self.config.max_file_size and ...\<close> is false for \<^verbatim>\<open>None\<close> and for \<open>0\<close>.
\<close>

definition min_age :: "int \<Rightarrow> int \<Rightarrow> py_exception + int" where
  "min_age now days =
    (if days < - 999999999 \<or> 999999999 < days
     then Inl (PyException ''days out of range; must have magnitude <= 999999999'')
     else if now - timedelta_days days < 0
          \<or> 3652059 * 86400000000 \<le> now - timedelta_days days
     then Inl (PyException ''date value out of range'')
     else Inr (now - timedelta_days days))"

definition too_recent :: "datetime \<Rightarrow> int \<Rightarrow> int \<Rightarrow> py_exception + bool" where
  "too_recent lm now days =
    (case min_age now days of
       Inl e \<Rightarrow> Inl e
     | Inr cutoff \<Rightarrow>
        (case lm of
           Naive t \<Rightarrow> Inr (t > cutoff)
         | Aware t \<Rightarrow>
            Inl (PyException ''can't compare offset-naive and offset-aware datetimes'')))"

definition should_include ::
  "(string \<Rightarrow> string \<Rightarrow> bool) \<Rightarrow> int \<Rightarrow> scanner_config \<Rightarrow> waste_item
    \<Rightarrow> py_exception + bool" where
  "should_include fnmatch now cfg item =
    (case (case last_modified item of
             None \<Rightarrow> Inr False
           | Some lm \<Rightarrow> too_recent lm now (min_file_age_days cfg)) of
       Inl e \<Rightarrow> Inl e
     | Inr True \<Rightarrow> Inr False
     | Inr False \<Rightarrow>
        Inr (if (case max_file_size cfg of
                   None \<Rightarrow> False
                 | Some m \<Rightarrow> m \<noteq> 0 \<and> size_bytes item > m)
             then False
             else if list_ex (fnmatch (path_str (path item))) (exclude_patterns cfg)
             then False
             else if include_patterns cfg \<noteq> []
             then list_ex (fnmatch (path_str (path item))) (include_patterns cfg)
             else True))"

text \<open>A matcher to run the policy on concrete patterns: \<^verbatim>\<open>fnmatch\<close> on a
  case-sensitive platform, for patterns without bracket expressions (\<open>*\<close> matches any
  run of characters, \<open>?\<close> any one character, any other character itself).\<close>

fun fnmatch_wild :: "string \<Rightarrow> string \<Rightarrow> bool" where
  "fnmatch_wild [] [] = True"
| "fnmatch_wild (c # cs) [] = False"
| "fnmatch_wild [] (p # ps) = (p = CHR ''*'' \<and> fnmatch_wild [] ps)"
| "fnmatch_wild (c # cs) (p # ps) =
    (if p = CHR ''*'' then fnmatch_wild (c # cs) ps \<or> fnmatch_wild cs (p # ps)
     else if p = CHR ''?'' then fnmatch_wild cs ps
     else c = p \<and> fnmatch_wild cs ps)"

section \<open>The machine: filesystem table and process table\<close>

text \<open>
  The filesystem is a table of the nodes that exist, in the order a directory walk
  meets them. A node is a regular file, a directory, or another kind of node
  (\<open>Special\<close>: a socket, a FIFO, a device), for which \<^verbatim>\<open>exists()\<close> holds while
  \<^verbatim>\<open>is_file()\<close> and \<^verbatim>\<open>is_dir()\<close> do not.

  \<^verbatim>\<open>Path.exists\<close>, \<^verbatim>\<open>Path.is_file\<close> and \<^verbatim>\<open>Path.is_dir\<close> call \<^verbatim>\<open>stat\<close>. They answer
  \<^verbatim>\<open>False\<close> when \<^verbatim>\<open>stat\<close> reports that the path is not there (the errors ENOENT,
  ENOTDIR, EBADF and ELOOP) and re-raise any other \<^verbatim>\<open>OSError\<close> of \<^verbatim>\<open>stat\<close>, such as the
  \<^verbatim>\<open>PermissionError\<close> for a path below a directory that the user may not search (so
  the pathlib of CPython 3.11). \<open>stat_faults\<close> names the paths on which
  \<^verbatim>\<open>stat\<close> fails in that way. \<^verbatim>\<open>rglob('*')\<close> reads the table.

  The two calls that change the table, \<^verbatim>\<open>unlink\<close> and \<^verbatim>\<open>rmdir\<close>, raise where the
  operating system refuses: \<open>fs_faults\<close> names the paths it refuses (permission denied,
  or another I/O failure), and \<^verbatim>\<open>rmdir\<close> of a directory that still has an entry below
  it fails as well. All these calls raise subclasses of \<^verbatim>\<open>OSError\<close> only.
\<close>

datatype node_kind = File | Dir | Special

datatype os_fault = Denied | IOFailure

text \<open>What \<^verbatim>\<open>psutil.process_iter\<close> gives while \<^verbatim>\<open>_is_file_locked\<close> walks it: a
  process with its \<^verbatim>\<open>open_files\<close> (or \<^verbatim>\<open>None\<close>), a process whose inspection raises
  \<^verbatim>\<open>NoSuchProcess\<close> or \<^verbatim>\<open>AccessDenied\<close>, or a failure of the iteration itself.\<close>

datatype proc_event = Proc "path list option" | ProcError | IterError

record machine =
  fs_entries :: "(path \<times> node_kind) list"
  stat_faults :: "path \<Rightarrow> os_fault option"
  fs_faults :: "path \<Rightarrow> os_fault option"
  processes :: "proc_event list"

fun raise_fault :: "os_fault \<Rightarrow> py_exception" where
  "raise_fault Denied = PermissionError ''Permission denied''"
| "raise_fault IOFailure = OSError ''Input/output error''"

text \<open>\<open>stat\<close> gives the node at the path, \<open>None\<close> when it is not there, or raises.\<close>

definition stat :: "machine \<Rightarrow> path \<Rightarrow> py_exception + node_kind option" where
  "stat m p =
    (case stat_faults m p of
       Some f \<Rightarrow> Inl (raise_fault f)
     | None \<Rightarrow> Inr (map_of (fs_entries m) p))"

definition path_exists :: "machine \<Rightarrow> path \<Rightarrow> py_exception + bool" where
  "path_exists m p = (case stat m p of Inl e \<Rightarrow> Inl e | Inr node \<Rightarrow> Inr (node \<noteq> None))"

definition is_file :: "machine \<Rightarrow> path \<Rightarrow> py_exception + bool" where
  "is_file m p = (case stat m p of Inl e \<Rightarrow> Inl e | Inr node \<Rightarrow> Inr (node = Some File))"

definition is_dir :: "machine \<Rightarrow> path \<Rightarrow> py_exception + bool" where
  "is_dir m p = (case stat m p of Inl e \<Rightarrow> Inl e | Inr node \<Rightarrow> Inr (node = Some Dir))"

definition rglob :: "machine \<Rightarrow> path \<Rightarrow> path list" where
  "rglob m p = map fst (filter (\<lambda>e. strict_prefix p (fst e)) (fs_entries m))"

definition drop_entry :: "machine \<Rightarrow> path \<Rightarrow> machine" where
  "drop_entry m p = m\<lparr>fs_entries := filter (\<lambda>e. fst e \<noteq> p) (fs_entries m)\<rparr>"

text \<open>A statement that may raise gives the exception it raised, if any, and the machine
  as it is at that moment.\<close>

definition unlink :: "machine \<Rightarrow> path \<Rightarrow> py_exception option \<times> machine" where
  "unlink m p =
    (case fs_faults m p of
       Some f \<Rightarrow> (Some (raise_fault f), m)
     | None \<Rightarrow>
        (case map_of (fs_entries m) p of
           None \<Rightarrow> (Some (OSError ''No such file or directory''), m)
         | Some Dir \<Rightarrow> (Some (OSError ''Is a directory''), m)
         | Some File \<Rightarrow> (None, drop_entry m p)
         | Some Special \<Rightarrow> (None, drop_entry m p)))"

definition rmdir :: "machine \<Rightarrow> path \<Rightarrow> py_exception option \<times> machine" where
  "rmdir m p =
    (case fs_faults m p of
       Some f \<Rightarrow> (Some (raise_fault f), m)
     | None \<Rightarrow>
        (case map_of (fs_entries m) p of
           None \<Rightarrow> (Some (OSError ''No such file or directory''), m)
         | Some Dir \<Rightarrow>
            (if rglob m p = [] then (None, drop_entry m p)
             else (Some (OSError ''Directory not empty''), m))
         | Some File \<Rightarrow> (Some (OSError ''Not a directory''), m)
         | Some Special \<Rightarrow> (Some (OSError ''Not a directory''), m)))"

section \<open>Safe removal (BaseScanner.\_is\_file\_locked, BaseScanner.\_safe\_remove)\<close>

fun is_file_locked :: "proc_event list \<Rightarrow> path \<Rightarrow> bool" where
  "is_file_locked [] p = False"
| "is_file_locked (Proc None # procs) p = is_file_locked procs p"
| "is_file_locked (Proc (Some files) # procs) p =
    (if p \<in> set files then True else is_file_locked procs p)"
| "is_file_locked (ProcError # procs) p = is_file_locked procs p"
| "is_file_locked (IterError # procs) p = False"

text \<open>The loop \<^verbatim>\<open>for child in path.rglob('*'): if child.is_file(): child.unlink()\<close>.
  An exception leaves the loop at once; the files unlinked before it stay unlinked.\<close>

fun unlink_files :: "machine \<Rightarrow> path list \<Rightarrow> py_exception option \<times> machine" where
  "unlink_files m [] = (None, m)"
| "unlink_files m (child # children) =
    (case is_file m child of
       Inl e \<Rightarrow> (Some e, m)
     | Inr True \<Rightarrow>
        (case unlink m child of
           (Some e, m') \<Rightarrow> (Some e, m')
         | (None, m') \<Rightarrow> unlink_files m' children)
     | Inr False \<Rightarrow> unlink_files m children)"

text \<open>The body of the \<^verbatim>\<open>try\<close> block of \<^verbatim>\<open>_safe_remove\<close>, up to \<^verbatim>\<open>return True\<close>.\<close>

definition remove_body :: "machine \<Rightarrow> path \<Rightarrow> py_exception option \<times> machine" where
  "remove_body m p =
    (case is_file m p of
       Inl e \<Rightarrow> (Some e, m)
     | Inr True \<Rightarrow> unlink m p
     | Inr False \<Rightarrow>
        (case is_dir m p of
           Inl e \<Rightarrow> (Some e, m)
         | Inr True \<Rightarrow>
            (case unlink_files m (rglob m p) of
               (Some e, m') \<Rightarrow> (Some e, m')
             | (None, m') \<Rightarrow> rmdir m' p)
         | Inr False \<Rightarrow> (None, m)))"

text \<open>\<^verbatim>\<open>_safe_remove\<close>: \<open>Inr b\<close> is \<^verbatim>\<open>return b\<close>, \<open>Inl e\<close> is an exception that
  leaves the method. The test \<^verbatim>\<open>path.exists()\<close> and the hazard check stand before the
  \<^verbatim>\<open>try\<close>. The handlers are \<^verbatim>\<open>except PermissionError\<close> and \<^verbatim>\<open>except OSError\<close>; any
  other exception passes through.\<close>

definition safe_remove :: "machine \<Rightarrow> path \<Rightarrow> (py_exception + bool) \<times> machine" where
  "safe_remove m p =
    (case path_exists m p of
       Inl e \<Rightarrow> (Inl e, m)
     | Inr False \<Rightarrow> (Inr False, m)
     | Inr True \<Rightarrow>
        (if is_file_locked (processes m) p then (Inr False, m)
         else
           (case remove_body m p of
              (None, m') \<Rightarrow> (Inr True, m')
            | (Some (PermissionError msg), m') \<Rightarrow> (Inr False, m')
            | (Some (OSError msg), m') \<Rightarrow> (Inr False, m')
            | (Some (PyException msg), m') \<Rightarrow> (Inl (PyException msg), m'))))"

section \<open>Scanner contract (BaseScanner)\<close>

text \<open>
  A scanner object: its name, what its abstract methods return, the platform its
  constructor detected, its config, and what its generator \<^verbatim>\<open>_scan_implementation\<close>
  does when it is consumed: it yields items one by one and then ends or raises.
\<close>

datatype generator = Done | Raise py_exception | Yield waste_item generator

record scanner =
  name :: string
  get_supported_platforms :: "os_platform list"
  current_platform :: os_platform
  get_category :: cleanup_category
  scanner_description :: string
  config :: scanner_config
  scan_implementation :: generator

definition is_supported :: "scanner \<Rightarrow> bool" where
  "is_supported s =
    (ALL_PLATFORMS \<in> set (get_supported_platforms s)
     \<or> current_platform s \<in> set (get_supported_platforms s))"

text \<open>The loop of \<^verbatim>\<open>scan\<close> inside its \<^verbatim>\<open>try\<close>: an exception of the generator or
  of \<^verbatim>\<open>_should_include\<close> ends the loop; it is caught and logged, and the items gathered
  so far are returned.\<close>

fun scan_items ::
  "(string \<Rightarrow> string \<Rightarrow> bool) \<Rightarrow> int \<Rightarrow> scanner_config \<Rightarrow> generator
    \<Rightarrow> waste_item list \<Rightarrow> waste_item list" where
  "scan_items fnmatch now cfg Done found = found"
| "scan_items fnmatch now cfg (Raise e) found = found"
| "scan_items fnmatch now cfg (Yield item g) found =
    (case should_include fnmatch now cfg item of
       Inl e \<Rightarrow> found
     | Inr True \<Rightarrow> scan_items fnmatch now cfg g (found @ [item])
     | Inr False \<Rightarrow> scan_items fnmatch now cfg g found)"

text \<open>A method of a scanner, as the orchestrator sees it, returns (\<open>Inr\<close>) or raises
  (\<open>Inl\<close>). \<open>scan\<close> and \<open>scanner_cleanup\<close> are \<^verbatim>\<open>BaseScanner.scan\<close> and
  \<^verbatim>\<open>BaseScanner.cleanup\<close>, which every scanner of the repository inherits.\<close>

definition scan ::
  "(string \<Rightarrow> string \<Rightarrow> bool) \<Rightarrow> int \<Rightarrow> scanner \<Rightarrow> py_exception + waste_item list" where
  "scan fnmatch now s =
    (if \<not> is_supported s then Inr []
     else if \<not> enabled (config s) then Inr []
     else Inr (scan_items fnmatch now (config s) (scan_implementation s) []))"

fun cleanup_items :: "machine \<Rightarrow> waste_item list \<Rightarrow> path list \<Rightarrow> path list \<times> machine" where
  "cleanup_items m [] removed = (removed, m)"
| "cleanup_items m (item # rest) removed =
    (case safe_remove m (path item) of
       (Inr True, m') \<Rightarrow> cleanup_items m' rest (removed @ [path item])
     | (Inr False, m') \<Rightarrow> cleanup_items m' rest removed
     | (Inl e, m') \<Rightarrow> cleanup_items m' rest removed)"

definition scanner_cleanup ::
  "scanner \<Rightarrow> waste_item list \<Rightarrow> machine \<Rightarrow> (py_exception + path list) \<times> machine" where
  "scanner_cleanup s its m =
    (if \<not> is_supported s then (Inr [], m)
     else (case cleanup_items m its [] of (removed, m') \<Rightarrow> (Inr removed, m')))"

section \<open>Orchestrator (ScannerManager)\<close>

text \<open>
  The manager holds the list \<^verbatim>\<open>self.scanners\<close>. Its audit logger (the module
  \<^verbatim>\<open>audit_logger\<close> is not among the sources) is called once a report is complete and
  is taken to return; it has no part in the reports. \<^verbatim>\<open>scanner.scan()\<close> and \<^verbatim>\<open>scanner.cleanup(items)\<close> are
  method calls on whatever scanner was registered, so the orchestrator is defined for
  any such methods (\<open>scan_method\<close>, \<open>cleanup_method\<close>): each returns or raises.
  The ids (\<^verbatim>\<open>_generate_id\<close>, a random UUID) and the result of
  \<^verbatim>\<open>platform.system().lower()\<close> are arguments.
\<close>

record scanner_manager =
  scanners :: "scanner list"

definition new_manager :: scanner_manager where
  "new_manager = \<lparr>scanners = []\<rparr>"

definition register_scanner :: "scanner_manager \<Rightarrow> scanner \<Rightarrow> scanner_manager" where
  "register_scanner mgr s =
    (if is_supported s then mgr\<lparr>scanners := scanners mgr @ [s]\<rparr> else mgr)"

definition detect_platform :: "string \<Rightarrow> py_exception + os_platform" where
  "detect_platform system =
    (if system = ''windows'' then Inr WINDOWS
     else if system = ''linux'' then Inr LINUX
     else if system = ''darwin'' then Inr MACOS
     else Inl (PyException (''Unsupported platform: '' @ system)))"

definition filter_scanners :: "scanner_manager \<Rightarrow> string list option \<Rightarrow> scanner list" where
  "filter_scanners mgr scanner_names =
    (case scanner_names of
       None \<Rightarrow> filter (\<lambda>s. enabled (config s)) (scanners mgr)
     | Some names \<Rightarrow>
        (if names = [] then filter (\<lambda>s. enabled (config s)) (scanners mgr)
         else filter (\<lambda>s. name s \<in> set names \<and> enabled (config s)) (scanners mgr)))"

type_synonym scan_method = "scanner \<Rightarrow> py_exception + waste_item list"

fun run_scanners :: "scan_method \<Rightarrow> scanner list \<Rightarrow> scan_result \<Rightarrow> scan_result" where
  "run_scanners scan_method [] result = result"
| "run_scanners scan_method (s # rest) result =
    (case scan_method s of
       Inr found \<Rightarrow> run_scanners scan_method rest (result\<lparr>items := items result @ found\<rparr>)
     | Inl e \<Rightarrow>
        run_scanners scan_method rest
          (result\<lparr>errors := errors result
             @ [''Scanner '' @ name s @ '' failed: '' @ exception_str e]\<rparr>))"

definition scan_system ::
  "scan_method \<Rightarrow> scanner_manager \<Rightarrow> string list option \<Rightarrow> string \<Rightarrow> string
    \<Rightarrow> py_exception + scan_result" where
  "scan_system scan_method mgr scanner_names new_id system =
    (case detect_platform system of
       Inl e \<Rightarrow> Inl e
     | Inr pf \<Rightarrow>
        (let result = run_scanners scan_method (filter_scanners mgr scanner_names)
               \<lparr>scan_id = new_id, total_found = 0, total_size = 0, items = [],
                errors = [], platform = pf\<rparr>
         in Inr (result\<lparr>total_found := int (length (items result)),
                        total_size := sum_list (map size_bytes (items result))\<rparr>)))"

text \<open>Grouping for \<^verbatim>\<open>cleanup\<close>. \<^verbatim>\<open>items_by_scanner\<close> is a dictionary keyed by the
  scanner object, so by its identity: here its position in \<^verbatim>\<open>self.scanners\<close>. The
  dictionary keeps its keys in the order of their first insertion.\<close>

fun find_scanner :: "scanner list \<Rightarrow> cleanup_category \<Rightarrow> nat \<Rightarrow> (nat \<times> scanner) option" where
  "find_scanner [] c i = None"
| "find_scanner (s # rest) c i =
    (if get_category s = c then Some (i, s) else find_scanner rest c (Suc i))"

type_synonym scanner_groups = "((nat \<times> scanner) \<times> waste_item list) list"

fun add_item :: "scanner_groups \<Rightarrow> nat \<times> scanner \<Rightarrow> waste_item \<Rightarrow> scanner_groups" where
  "add_item [] key item = [(key, [item])]"
| "add_item ((key', its) # groups) key item =
    (if fst key' = fst key then (key', its @ [item]) # groups
     else (key', its) # add_item groups key item)"

fun group_items :: "scanner list \<Rightarrow> waste_item list \<Rightarrow> scanner_groups \<Rightarrow> scanner_groups" where
  "group_items all_scanners [] groups = groups"
| "group_items all_scanners (item # rest) groups =
    (case find_scanner all_scanners (category item) 0 of
       None \<Rightarrow> group_items all_scanners rest groups
     | Some key \<Rightarrow> group_items all_scanners rest (add_item groups key item))"

type_synonym cleanup_method =
  "scanner \<Rightarrow> waste_item list \<Rightarrow> machine \<Rightarrow> (py_exception + path list) \<times> machine"

definition failure_record :: "scanner \<Rightarrow> waste_item \<Rightarrow> failed_item" where
  "failure_record s item =
    \<lparr>failed_path = path_str (path item), failed_error = ''Cleanup failed'',
     failed_scanner = name s\<rparr>"

fun cleanup_groups ::
  "cleanup_method \<Rightarrow> scanner_groups \<Rightarrow> cleanup_result \<Rightarrow> machine \<Rightarrow> cleanup_result \<times> machine" where
  "cleanup_groups cleanup_method [] result m = (result, m)"
| "cleanup_groups cleanup_method (((i, s), scanner_items) # groups) result m =
    (case cleanup_method s scanner_items m of
       (Inr removed_paths, m') \<Rightarrow>
         cleanup_groups cleanup_method groups
           (result\<lparr>removed_items := removed_items result
                      @ filter (\<lambda>item. path item \<in> set removed_paths) scanner_items,
                    failed_items := failed_items result
                      @ map (failure_record s)
                          (filter (\<lambda>item. path item \<notin> set removed_paths) scanner_items)\<rparr>)
           m'
     | (Inl e, m') \<Rightarrow>
         cleanup_groups cleanup_method groups
           (result\<lparr>cleanup_errors := cleanup_errors result
              @ [''Cleanup failed for scanner '' @ name s @ '': '' @ exception_str e]\<rparr>)
           m')"

definition cleanup ::
  "cleanup_method \<Rightarrow> scanner_manager \<Rightarrow> waste_item list \<Rightarrow> bool \<Rightarrow> string \<Rightarrow> machine
    \<Rightarrow> cleanup_result \<times> machine" where
  "cleanup cleanup_method mgr its dry_run new_id m =
    (if dry_run then
       (\<lparr>cleanup_id = new_id, total_removed = int (length its),
         total_freed = sum_list (map size_bytes its), removed_items = its,
         failed_items = [], cleanup_errors = []\<rparr>, m)
     else
       (case cleanup_groups cleanup_method (group_items (scanners mgr) its [])
               \<lparr>cleanup_id = new_id, total_removed = 0, total_freed = 0,
                removed_items = [], failed_items = [], cleanup_errors = []\<rparr> m of
          (result, m') \<Rightarrow>
            (result\<lparr>total_removed := int (length (removed_items result)),
                    total_freed := sum_list (map size_bytes (removed_items result))\<rparr>, m')))"

record scanner_info =
  info_name :: string
  info_category :: cleanup_category
  info_description :: string
  info_enabled :: bool
  info_supported :: bool
  info_platforms :: "string list"

fun platform_value :: "os_platform \<Rightarrow> string" where
  "platform_value WINDOWS = ''windows''"
| "platform_value LINUX = ''linux''"
| "platform_value MACOS = ''macos''"
| "platform_value ALL_PLATFORMS = ''all''"

definition get_scanner_info :: "scanner_manager \<Rightarrow> scanner_info list" where
  "get_scanner_info mgr =
    map (\<lambda>s. \<lparr>info_name = name s, info_category = get_category s,
              info_description = scanner_description s,
              info_enabled = enabled (config s),
              info_supported = is_supported s,
              info_platforms = map platform_value (get_supported_platforms s)\<rparr>)
      (scanners mgr)"

section \<open>Notions used in the theorems\<close>

text \<open>The manager after a sequence of registrations, starting from a new one.\<close>

definition registered :: "scanner list \<Rightarrow> scanner_manager" where
  "registered offered = foldl register_scanner new_manager offered"

text \<open>The calls \<^verbatim>\<open>scanner.cleanup(scanner_items)\<close> that the loop of \<open>cleanup\<close> makes, in
  order, each with its outcome on the machine as the calls before it left it.\<close>

type_synonym cleanup_call = "(nat \<times> scanner) \<times> waste_item list \<times> (py_exception + path list)"

fun cleanup_calls :: "cleanup_method \<Rightarrow> scanner_groups \<Rightarrow> machine \<Rightarrow> cleanup_call list" where
  "cleanup_calls cleanup_method [] m = []"
| "cleanup_calls cleanup_method ((key, scanner_items) # groups) m =
    (case cleanup_method (snd key) scanner_items m of
       (outcome, m') \<Rightarrow>
         (key, scanner_items, outcome) # cleanup_calls cleanup_method groups m')"

text \<open>What one call that returned accounts for: the items whose path it returned, and
  a failure record for each of the others. A call that raised accounts for neither.\<close>

definition credited :: "cleanup_call \<Rightarrow> waste_item list" where
  "credited call =
    (case call of (key, scanner_items, outcome) \<Rightarrow>
      (case outcome of
         Inl e \<Rightarrow> []
       | Inr removed_paths \<Rightarrow> filter (\<lambda>item. path item \<in> set removed_paths) scanner_items))"

definition failures :: "cleanup_call \<Rightarrow> failed_item list" where
  "failures call =
    (case call of (key, scanner_items, outcome) \<Rightarrow>
      (case outcome of
         Inl e \<Rightarrow> []
       | Inr removed_paths \<Rightarrow>
           map (failure_record (snd key))
             (filter (\<lambda>item. path item \<notin> set removed_paths) scanner_items)))"

text \<open>The groups whose key holds, next to a position, the scanner at that position.\<close>

definition keyed_by :: "scanner list \<Rightarrow> scanner_groups \<Rightarrow> bool" where
  "keyed_by ss groups = list_all (\<lambda>g. snd (fst g) = ss ! fst (fst g)) groups"

text \<open>The exceptions of the class \<^verbatim>\<open>OSError\<close>.\<close>

definition os_error :: "py_exception \<Rightarrow> bool" where
  "os_error e = (case e of PyException msg \<Rightarrow> False | _ \<Rightarrow> True)"

text \<open>The items a generator yields before it ends or raises.\<close>

fun yielded :: "generator \<Rightarrow> waste_item list" where
  "yielded Done = []"
| "yielded (Raise e) = []"
| "yielded (Yield item g) = item # yielded g"

text \<open>The entry of the error list that a call which raised accounts for.\<close>

definition call_errors :: "cleanup_call \<Rightarrow> string list" where
  "call_errors call =
    (case call of (key, scanner_items, outcome) \<Rightarrow>
      (case outcome of
         Inl e \<Rightarrow> [''Cleanup failed for scanner '' @ name (snd key) @ '': '' @ exception_str e]
       | Inr removed_paths \<Rightarrow> []))"

text \<open>The groups in which every item is under the key of the scanner that owns its
  category.\<close>

definition owned_by :: "scanner list \<Rightarrow> scanner_groups \<Rightarrow> bool" where
  "owned_by ss groups =
    list_all (\<lambda>g. list_all (\<lambda>item. find_scanner ss (category item) 0 = Some (fst g)) (snd g))
      groups"

section \<open>Example data\<close>

text \<open>The inputs on which the theorems below are run: the scanners that
  \<^verbatim>\<open>main.py\<close> registers, on a Linux machine, and items like those they yield. One day
  is \<open>86400000000\<close> microseconds; 2024-04-25 00:00:00 is 739000 days after
  \<^verbatim>\<open>datetime.min\<close>, which is \<open>63849600000000000\<close> microseconds.\<close>

definition default_config :: scanner_config where
  "default_config = \<lparr>enabled = True, priority = 10, max_file_size = None,
     min_file_age_days = 1, exclude_patterns = [], include_patterns = []\<rparr>"

definition cache_item :: waste_item where
  "cache_item = \<lparr>path = [''tmp'', ''cache.bin''], size_bytes = 10240,
     category = TEMP_FILES, description = ''System temporary files: cache.bin'',
     safety_level = SAFE, last_accessed = None, last_modified = None, owner = None,
     process_locked = False, metadata = []\<rparr>"

definition log_item :: waste_item where
  "log_item = \<lparr>path = [''var'', ''log'', ''app.log''], size_bytes = 500,
     category = SYSTEM_LOGS, description = ''Log file: log/app.log'',
     safety_level = WARNING, last_accessed = None, last_modified = None, owner = None,
     process_locked = False, metadata = []\<rparr>"

definition cookie_item :: waste_item where
  "cookie_item = \<lparr>path = [''home'', ''u'', ''Cookies''], size_bytes = 2048,
     category = BROWSER_COOKIES, description = ''Chrome cookies database'',
     safety_level = DANGEROUS, last_accessed = None, last_modified = None, owner = None,
     process_locked = False, metadata = [(''browser'', ''Chrome''), (''type'', ''cookies'')]\<rparr>"

definition browser_cache_item :: waste_item where
  "browser_cache_item = \<lparr>path = [''home'', ''u'', ''Cache'', ''f1''], size_bytes = 4096,
     category = BROWSER_CACHE, description = ''Chrome cache file'',
     safety_level = SAFE, last_accessed = None, last_modified = None, owner = None,
     process_locked = False, metadata = [(''browser'', ''Chrome''), (''type'', ''cache'')]\<rparr>"

text \<open>A file last modified on 2024-04-25 at 00:00:00, the same with an aware timestamp,
  and the log file with that time of modification.\<close>

definition fresh_item :: waste_item where
  "fresh_item = \<lparr>path = [''tmp'', ''fresh.tmp''], size_bytes = 64,
     category = TEMP_FILES, description = ''System temporary files: fresh.tmp'',
     safety_level = SAFE, last_accessed = None,
     last_modified = Some (Naive 63849600000000000),
     owner = None, process_locked = False, metadata = []\<rparr>"

definition aware_item :: waste_item where
  "aware_item = fresh_item\<lparr>last_modified := Some (Aware 63849600000000000)\<rparr>"

definition fresh_log_item :: waste_item where
  "fresh_log_item = log_item\<lparr>last_modified := Some (Naive 63849600000000000)\<rparr>"

text \<open>The clock at noon of that day, half a day after the modification, and at
  midnight two days after it.\<close>

definition noon :: int where
  "noon = 63849643200000000"

definition two_days_later :: int where
  "two_days_later = 63849772800000000"

definition both_lists_config :: scanner_config where
  "both_lists_config = default_config\<lparr>exclude_patterns := [''*.log''],
     include_patterns := [''/var/*'']\<rparr>"

text \<open>Configs with a minimum age of a million days, which is more than the days since
  \<^verbatim>\<open>datetime.min\<close>.\<close>

definition million_days_config :: scanner_config where
  "million_days_config = default_config\<lparr>min_file_age_days := 1000000\<rparr>"

definition million_days_lists_config :: scanner_config where
  "million_days_lists_config = both_lists_config\<lparr>min_file_age_days := 1000000\<rparr>"

definition temp_scanner :: scanner where
  "temp_scanner = \<lparr>name = ''SystemTempScanner'', get_supported_platforms = [ALL_PLATFORMS],
     current_platform = LINUX, get_category = TEMP_FILES,
     scanner_description = ''System temporary files and cache'', config = default_config,
     scan_implementation = Yield cache_item Done\<rparr>"

definition logs_scanner :: scanner where
  "logs_scanner = \<lparr>name = ''SystemLogsScanner'', get_supported_platforms = [ALL_PLATFORMS],
     current_platform = LINUX, get_category = SYSTEM_LOGS,
     scanner_description = ''System and application log files'', config = default_config,
     scan_implementation = Yield log_item Done\<rparr>"

text \<open>A Chrome scanner whose discovery yields one cache file and then raises.\<close>

definition chrome_scanner :: scanner where
  "chrome_scanner = \<lparr>name = ''ChromeScanner'',
     get_supported_platforms = [WINDOWS, LINUX, MACOS],
     current_platform = LINUX, get_category = BROWSER_CACHE,
     scanner_description = ''Chrome browser data'', config = default_config,
     scan_implementation = Yield browser_cache_item (Raise (PyException ''database is locked''))\<rparr>"

text \<open>A scanner for another platform than the one it runs on.\<close>

definition windows_only_scanner :: scanner where
  "windows_only_scanner = \<lparr>name = ''PrefetchScanner'', get_supported_platforms = [WINDOWS],
     current_platform = LINUX, get_category = MEMORY_DUMPS,
     scanner_description = ''Windows prefetch files'', config = default_config,
     scan_implementation = Done\<rparr>"

text \<open>A temp scanner with the minimum age of a million days, whose discovery yields the
  fresh file and then the cache file.\<close>

definition million_days_scanner :: scanner where
  "million_days_scanner = temp_scanner\<lparr>config := million_days_config,
     scan_implementation := Yield fresh_item (Yield cache_item Done)\<rparr>"

text \<open>The managers: the three scanners above registered in turn, and the same with the
  scanner of the other platform offered first.\<close>

definition three_scanners :: scanner_manager where
  "three_scanners = registered [temp_scanner, chrome_scanner, logs_scanner]"

definition four_offered :: scanner_manager where
  "four_offered =
    registered [windows_only_scanner, temp_scanner, chrome_scanner, logs_scanner]"

text \<open>A scan method that raises for the Chrome scanner and is the inherited one for
  the others, methods that raise for every scanner the platform does not support, and a
  cleanup method that raises for the temp scanner and is the inherited one for the
  others.\<close>

definition chrome_scan_raises :: scan_method where
  "chrome_scan_raises s =
    (if name s = ''ChromeScanner'' then Inl (PyException ''database is locked'')
     else scan fnmatch_wild noon s)"

definition scan_or_raise :: scan_method where
  "scan_or_raise s =
    (if is_supported s then scan fnmatch_wild noon s else Inl (PyException ''unsupported''))"

definition cleanup_or_raise :: cleanup_method where
  "cleanup_or_raise s its m =
    (if is_supported s then scanner_cleanup s its m else (Inl (PyException ''unsupported''), m))"

definition temp_cleanup_raises :: cleanup_method where
  "temp_cleanup_raises s its m =
    (if name s = ''SystemTempScanner'' then (Inl (PyException ''disk detached''), m)
     else scanner_cleanup s its m)"

text \<open>A machine: \<^verbatim>\<open>/tmp/cache.bin\<close>, the directory \<^verbatim>\<open>/tmp/d\<close> with a subdirectory
  \<^verbatim>\<open>s\<close> and a file \<^verbatim>\<open>s/f\<close>, \<^verbatim>\<open>/var/log/app.log\<close>, which the operating system
  refuses to delete, and \<^verbatim>\<open>/root/key\<close> in a directory the user may not search, so
  that \<^verbatim>\<open>stat\<close> on it is refused. One process holds \<^verbatim>\<open>/tmp/busy\<close> open.\<close>

definition example_machine :: machine where
  "example_machine = \<lparr>fs_entries =
      [([''tmp''], Dir), ([''tmp'', ''cache.bin''], File), ([''tmp'', ''busy''], File),
       ([''tmp'', ''d''], Dir), ([''tmp'', ''d'', ''s''], Dir),
       ([''tmp'', ''d'', ''s'', ''f''], File),
       ([''var''], Dir), ([''var'', ''log''], Dir), ([''var'', ''log'', ''app.log''], File),
       ([''root''], Dir), ([''root'', ''key''], File)],
     stat_faults = (\<lambda>p. if p = [''root'', ''key''] then Some Denied else None),
     fs_faults = (\<lambda>p. if p = [''var'', ''log'', ''app.log''] then Some Denied else None),
     processes = [Proc None, ProcError, Proc (Some [[''tmp'', ''busy'']])]\<rparr>"

section \<open>Filtering policy: theorems\<close>

lemma path_str_log_item: "path_str (path log_item) = ''/var/log/app.log''"
  by (simp add: log_item_def path_str_def)

lemma min_age_value: "min_age now days = Inr cutoff \<Longrightarrow> cutoff = now - timedelta_days days"
  by (auto simp add: min_age_def split: if_splits)

lemma example_min_age:
  "min_age noon 1 = Inr 63849556800000000"
  "min_age two_days_later 1 = Inr 63849686400000000"
  "min_age noon 1000000 = Inl (PyException ''date value out of range'')"
  by (simp_all add: min_age_def timedelta_days_def noon_def two_days_later_def)

lemma example_too_recent:
  "too_recent (Naive 63849600000000000) noon 1 = Inr True"
  "too_recent (Naive 63849600000000000) two_days_later 1 = Inr False"
  "too_recent (Naive 63849600000000000) noon 1000000
    = Inl (PyException ''date value out of range'')"
  "too_recent (Aware 63849600000000000) noon 1
    = Inl (PyException ''can't compare offset-naive and offset-aware datetimes'')"
  by (simp_all add: too_recent_def example_min_age)

text \<open>
  C7, as the code has it. If the path of a candidate matches one of the exclusion
  patterns of the config, \<open>should_include\<close> never returns true, whatever the inclusion
  patterns, the other settings, the clock and the matcher are. It returns false when
  the candidate has no \<open>last_modified\<close>, and when \<open>last_modified\<close> is naive and the
  cutoff \<open>min_age\<close> is a datetime. Otherwise the age gate, which comes first, raises,
  and so does \<open>should_include\<close>: the error of the cutoff when it is not a datetime,
  and else the error of the comparison with an aware \<open>last_modified\<close>.
\<close>

theorem exclusion_takes_precedence:
  assumes "pat \<in> set (exclude_patterns cfg)"
    and "fnmatch (path_str (path item)) pat"
  shows "should_include fnmatch now cfg item \<noteq> Inr True
    \<and> (last_modified item = None \<longrightarrow> should_include fnmatch now cfg item = Inr False)
    \<and> (last_modified item = Some (Naive t)
          \<and> min_age now (min_file_age_days cfg) = Inr cutoff
        \<longrightarrow> should_include fnmatch now cfg item = Inr False)
    \<and> (last_modified item = Some lm \<and> min_age now (min_file_age_days cfg) = Inl e
        \<longrightarrow> should_include fnmatch now cfg item = Inl e)
    \<and> (last_modified item = Some (Aware t)
          \<and> min_age now (min_file_age_days cfg) = Inr cutoff
        \<longrightarrow> should_include fnmatch now cfg item
          = Inl (PyException ''can't compare offset-naive and offset-aware datetimes''))"
proof -
  from assms have ex: "list_ex (fnmatch (path_str (path item))) (exclude_patterns cfg)"
    unfolding list_ex_iff by blast
  have never: "should_include fnmatch now cfg item \<noteq> Inr True"
    using ex by (simp add: should_include_def split: option.splits sum.splits bool.splits)
  have none: "should_include fnmatch now cfg item = Inr False" if "last_modified item = None"
    using that ex by (simp add: should_include_def)
  have naive: "should_include fnmatch now cfg item = Inr False"
    if "last_modified item = Some (Naive t) \<and> min_age now (min_file_age_days cfg) = Inr cutoff"
    using that ex by (simp add: should_include_def too_recent_def split: bool.splits)
  have overflow: "should_include fnmatch now cfg item = Inl e"
    if "last_modified item = Some lm \<and> min_age now (min_file_age_days cfg) = Inl e"
    using that by (simp add: should_include_def too_recent_def)
  have aware: "should_include fnmatch now cfg item
      = Inl (PyException ''can't compare offset-naive and offset-aware datetimes'')"
    if "last_modified item = Some (Aware t) \<and> min_age now (min_file_age_days cfg) = Inr cutoff"
    using that by (simp add: should_include_def too_recent_def)
  from never none naive overflow aware show ?thesis by blast
qed

text \<open>The log file matches the exclusion pattern \<^verbatim>\<open>*.log\<close> and the inclusion pattern
  \<^verbatim>\<open>/var/*\<close>, and is rejected, without a timestamp and with the timestamp of half a
  day ago.\<close>

theorem exclusion_takes_precedence_witness:
  "''*.log'' \<in> set (exclude_patterns both_lists_config)
   \<and> fnmatch_wild (path_str (path log_item)) ''*.log''
   \<and> list_ex (fnmatch_wild (path_str (path log_item))) (include_patterns both_lists_config)
   \<and> last_modified log_item = None
   \<and> should_include fnmatch_wild noon both_lists_config log_item = Inr False
   \<and> fnmatch_wild (path_str (path fresh_log_item)) ''*.log''
   \<and> last_modified fresh_log_item = Some (Naive 63849600000000000)
   \<and> min_age noon (min_file_age_days both_lists_config) = Inr 63849556800000000
   \<and> should_include fnmatch_wild noon both_lists_config fresh_log_item = Inr False"
  using exclusion_takes_precedence [where pat = "''*.log''" and cfg = both_lists_config
      and fnmatch = fnmatch_wild and item = log_item and now = noon]
    exclusion_takes_precedence [where pat = "''*.log''" and cfg = both_lists_config
      and fnmatch = fnmatch_wild and item = fresh_log_item and now = noon
      and t = 63849600000000000 and cutoff = 63849556800000000]
  by (simp add: both_lists_config_def default_config_def path_str_log_item fresh_log_item_def
      example_min_age)
    (simp add: log_item_def)

text \<open>C7, as the spec states it, fails: under a minimum age of a million days the
  cutoff is no datetime, and for the log file with a timestamp, which matches the
  exclusion pattern, \<open>should_include\<close> raises instead of returning false.\<close>

theorem exclusion_does_not_stop_overflow:
  "''*.log'' \<in> set (exclude_patterns million_days_lists_config)
   \<and> fnmatch_wild (path_str (path fresh_log_item)) ''*.log''
   \<and> should_include fnmatch_wild noon million_days_lists_config fresh_log_item
     = Inl (PyException ''date value out of range'')"
  by (simp add: million_days_lists_config_def both_lists_config_def default_config_def
      fresh_log_item_def log_item_def path_str_def should_include_def example_too_recent)

text \<open>
  C8, as the code has it. A candidate whose \<open>last_modified\<close> is naive and less than
  \<open>min_file_age_days\<close> days before the current time is never admitted, whatever the
  rest of the config is: \<open>should_include\<close> returns false when the cutoff \<open>min_age\<close> is a
  datetime and raises the error of the cutoff when it is not. A candidate whose
  \<open>last_modified\<close> is aware is never admitted either: \<open>should_include\<close> raises. A
  candidate without \<open>last_modified\<close> is not rejected by the age gate: its verdict is
  that of the size, exclusion and inclusion gates, at any time and for any minimum age.
\<close>

theorem age_gate_rejects_recent:
  "(last_modified item = Some (Naive t) \<and> now - t < timedelta_days (min_file_age_days cfg)
      \<longrightarrow> should_include fnmatch now cfg item \<noteq> Inr True
        \<and> (min_age now (min_file_age_days cfg) = Inr cutoff
            \<longrightarrow> should_include fnmatch now cfg item = Inr False)
        \<and> (min_age now (min_file_age_days cfg) = Inl e
            \<longrightarrow> should_include fnmatch now cfg item = Inl e))
   \<and> (last_modified item = Some (Aware t)
      \<longrightarrow> (\<exists>e'. should_include fnmatch now cfg item = Inl e'))
   \<and> (last_modified item = None
      \<longrightarrow> should_include fnmatch now cfg item
        = Inr (\<not> (case max_file_size cfg of
                     None \<Rightarrow> False
                   | Some m \<Rightarrow> m \<noteq> 0 \<and> size_bytes item > m)
               \<and> \<not> list_ex (fnmatch (path_str (path item))) (exclude_patterns cfg)
               \<and> (include_patterns cfg = []
                  \<or> list_ex (fnmatch (path_str (path item))) (include_patterns cfg))))"
proof (intro conjI impI)
  assume recent: "last_modified item = Some (Naive t)
    \<and> now - t < timedelta_days (min_file_age_days cfg)"
  show "should_include fnmatch now cfg item = Inr False"
    if "min_age now (min_file_age_days cfg) = Inr cutoff"
    using that recent min_age_value [OF that]
    by (simp add: should_include_def too_recent_def)
  show "should_include fnmatch now cfg item = Inl e"
    if "min_age now (min_file_age_days cfg) = Inl e"
    using that recent by (simp add: should_include_def too_recent_def)
  show "should_include fnmatch now cfg item \<noteq> Inr True"
  proof (cases "min_age now (min_file_age_days cfg)")
    case (Inl e')
    with recent show ?thesis by (simp add: should_include_def too_recent_def)
  next
    case (Inr c)
    with recent min_age_value [OF Inr] show ?thesis
      by (simp add: should_include_def too_recent_def)
  qed
next
  assume "last_modified item = Some (Aware t)"
  then show "\<exists>e'. should_include fnmatch now cfg item = Inl e'"
    by (cases "min_age now (min_file_age_days cfg)")
      (simp_all add: should_include_def too_recent_def)
next
  assume "last_modified item = None"
  then show "should_include fnmatch now cfg item
      = Inr (\<not> (case max_file_size cfg of
                   None \<Rightarrow> False
                 | Some m \<Rightarrow> m \<noteq> 0 \<and> size_bytes item > m)
             \<and> \<not> list_ex (fnmatch (path_str (path item))) (exclude_patterns cfg)
             \<and> (include_patterns cfg = []
                \<or> list_ex (fnmatch (path_str (path item))) (include_patterns cfg)))"
    by (simp add: should_include_def)
qed

text \<open>At noon, half a day after its modification, the fresh file is rejected under the
  default minimum age of one day, and the file with the aware timestamp makes
  \<open>should_include\<close> raise. The cache file, which has no timestamp, is admitted then,
  also under a minimum age of a million days.\<close>

theorem age_gate_rejects_recent_witness:
  "last_modified fresh_item = Some (Naive 63849600000000000)
   \<and> noon - 63849600000000000 < timedelta_days (min_file_age_days default_config)
   \<and> min_age noon (min_file_age_days default_config) = Inr 63849556800000000
   \<and> should_include fnmatch_wild noon default_config fresh_item = Inr False
   \<and> last_modified aware_item = Some (Aware 63849600000000000)
   \<and> should_include fnmatch_wild noon default_config aware_item
     = Inl (PyException ''can't compare offset-naive and offset-aware datetimes'')
   \<and> last_modified cache_item = None
   \<and> should_include fnmatch_wild noon default_config cache_item = Inr True
   \<and> should_include fnmatch_wild noon million_days_config cache_item = Inr True"
  using age_gate_rejects_recent [where item = fresh_item and t = 63849600000000000
      and now = noon and cfg = default_config and fnmatch = fnmatch_wild
      and cutoff = 63849556800000000]
    age_gate_rejects_recent [where item = aware_item and t = 63849600000000000
      and now = noon and cfg = default_config and fnmatch = fnmatch_wild]
    age_gate_rejects_recent [where item = cache_item and now = noon
      and cfg = default_config and fnmatch = fnmatch_wild]
    age_gate_rejects_recent [where item = cache_item and now = noon
      and cfg = million_days_config and fnmatch = fnmatch_wild]
  by (simp add: fresh_item_def aware_item_def cache_item_def default_config_def
      million_days_config_def timedelta_days_def noon_def example_min_age [unfolded noon_def]
      should_include_def example_too_recent [unfolded noon_def])

text \<open>C8, as the spec states it, fails: under a minimum age of a million days the
  fresh file, modified half a day ago, is within the minimum age, and \<open>should_include\<close>
  raises instead of returning false.\<close>

theorem recent_file_and_overflow:
  "last_modified fresh_item = Some (Naive 63849600000000000)
   \<and> noon - 63849600000000000 < timedelta_days (min_file_age_days million_days_config)
   \<and> should_include fnmatch_wild noon million_days_config fresh_item
     = Inl (PyException ''date value out of range'')"
  by (simp add: fresh_item_def million_days_config_def default_config_def
      should_include_def example_too_recent)
    (simp add: timedelta_days_def noon_def)

text \<open>
  C9, as the code has it. \<open>should_include\<close> returns a verdict or raises, and does
  nothing else; the outcome is a function of the candidate, the config and the clock:
  it reads the current time in the age gate. Two evaluations on the same candidate and
  config have the same outcome whenever the age gate has the same outcome at both
  times, so always when they happen at the same time or the candidate has no
  \<open>last_modified\<close>.
\<close>

theorem should_include_same_verdict:
  assumes "case last_modified item of
             None \<Rightarrow> True
           | Some lm \<Rightarrow> too_recent lm now (min_file_age_days cfg)
                       = too_recent lm later (min_file_age_days cfg)"
  shows "should_include fnmatch now cfg item = should_include fnmatch later cfg item"
  using assms by (cases "last_modified item") (simp_all add: should_include_def)

lemma example_old_enough:
  "too_recent (Naive 63849600000000000) 63849859200000000 1 = Inr False"
  "too_recent (Naive 63849600000000000) 63849945600000000 1 = Inr False"
  by (simp_all add: too_recent_def min_age_def timedelta_days_def)

text \<open>Three days and four days after its modification the fresh file is old enough,
  and admitted both times.\<close>

theorem should_include_same_verdict_witness:
  "(case last_modified fresh_item of
      None \<Rightarrow> True
    | Some lm \<Rightarrow> too_recent lm 63849859200000000 (min_file_age_days default_config)
                = too_recent lm 63849945600000000 (min_file_age_days default_config))
   \<and> should_include fnmatch_wild 63849859200000000 default_config fresh_item
       = should_include fnmatch_wild 63849945600000000 default_config fresh_item
   \<and> should_include fnmatch_wild 63849859200000000 default_config fresh_item = Inr True"
  using should_include_same_verdict [where item = fresh_item and now = 63849859200000000
      and cfg = default_config and later = 63849945600000000 and fnmatch = fnmatch_wild]
  by (simp add: fresh_item_def default_config_def example_old_enough should_include_def)

text \<open>C9, as the spec states it, fails: the same candidate under the same config is
  rejected half a day after its modification and admitted two days after it.\<close>

theorem should_include_depends_on_clock:
  "should_include fnmatch_wild noon default_config fresh_item = Inr False
   \<and> should_include fnmatch_wild two_days_later default_config fresh_item = Inr True"
  by (simp add: should_include_def fresh_item_def default_config_def example_too_recent)

section \<open>Dry run\<close>

text \<open>
  C6. With \<open>dry_run\<close> set, \<open>cleanup\<close> credits every requested item as removed and the
  sum of their sizes as freed, records no failure, leaves the machine as it was, and
  consults no scanner: the report is the same for any manager and any cleanup method.
\<close>

theorem dry_run_reports_everything:
  "cleanup cleanup_method mgr its True new_id m =
     (\<lparr>cleanup_id = new_id, total_removed = int (length its),
       total_freed = sum_list (map size_bytes its), removed_items = its,
       failed_items = [], cleanup_errors = []\<rparr>, m)
   \<and> cleanup cleanup_method mgr its True new_id m
       = cleanup cleanup_method' mgr' its True new_id m"
  by (simp add: cleanup_def)

theorem dry_run_reports_everything_witness:
  "total_removed (fst (cleanup scanner_cleanup three_scanners
      [cache_item, cookie_item, log_item] True ''1a2b3c4d'' example_machine)) = 3
   \<and> total_freed (fst (cleanup scanner_cleanup three_scanners
      [cache_item, cookie_item, log_item] True ''1a2b3c4d'' example_machine)) = 12788
   \<and> snd (cleanup scanner_cleanup three_scanners
      [cache_item, cookie_item, log_item] True ''1a2b3c4d'' example_machine) = example_machine"
  using dry_run_reports_everything [where cleanup_method = scanner_cleanup
      and mgr = three_scanners and its = "[cache_item, cookie_item, log_item]"
      and new_id = "''1a2b3c4d''" and m = example_machine]
  by (simp add: cache_item_def cookie_item_def log_item_def)

section \<open>Registration\<close>

lemma scanners_registered: "scanners (registered offered) = filter is_supported offered"
proof -
  have "scanners (foldl register_scanner mgr offered)
      = scanners mgr @ filter is_supported offered" for mgr
    by (induction offered arbitrary: mgr) (simp_all add: register_scanner_def)
  then show ?thesis by (simp add: registered_def new_manager_def)
qed

lemma registered_supported: "s \<in> set (scanners (registered offered)) \<Longrightarrow> is_supported s"
  by (simp add: scanners_registered)

lemma filter_scanners_subset: "set (filter_scanners mgr names) \<subseteq> set (scanners mgr)"
  by (auto simp add: filter_scanners_def split: option.splits)

lemma filter_scanners_enabled: "s \<in> set (filter_scanners mgr names) \<Longrightarrow> enabled (config s)"
  by (auto simp add: filter_scanners_def split: option.splits if_splits)

lemma find_scanner_mem: "find_scanner ss c i = Some (k, s) \<Longrightarrow> s \<in> set ss"
  by (induction ss c i rule: find_scanner.induct) (auto split: if_splits)

lemma add_item_keys:
  "snd ` fst ` set (add_item groups key item) \<subseteq> insert (snd key) (snd ` fst ` set groups)"
  by (induction groups key item rule: add_item.induct) auto

lemma group_items_keys:
  "snd ` fst ` set (group_items ss its groups) \<subseteq> set ss \<union> snd ` fst ` set groups"
proof (induction its arbitrary: groups)
  case Nil
  then show ?case by simp
next
  case (Cons item rest)
  show ?case
  proof (cases "find_scanner ss (category item) 0")
    case None
    with Cons show ?thesis by simp
  next
    case (Some key)
    obtain k s where key: "key = (k, s)" by (cases key)
    with Some have "s \<in> set ss" by (auto dest: find_scanner_mem)
    moreover have "snd ` fst ` set (group_items ss rest (add_item groups key item))
        \<subseteq> set ss \<union> snd ` fst ` set (add_item groups key item)"
      by (rule Cons.IH)
    ultimately show ?thesis
      using Some key add_item_keys [of groups key item] by auto
  qed
qed

lemma run_scanners_cong:
  "(\<And>s. s \<in> set ss \<Longrightarrow> sm s = sm' s) \<Longrightarrow> run_scanners sm ss r = run_scanners sm' ss r"
  by (induction ss arbitrary: r) (simp_all split: sum.splits)

lemma cleanup_groups_cong:
  "(\<And>g. g \<in> set groups \<Longrightarrow> cm (snd (fst g)) = cm' (snd (fst g)))
    \<Longrightarrow> cleanup_groups cm groups r m = cleanup_groups cm' groups r m"
proof (induction groups arbitrary: r m)
  case Nil
  then show ?case by simp
next
  case (Cons g groups)
  obtain i s its where g: "g = ((i, s), its)" by (metis prod.collapse)
  have "cm s = cm' s" using Cons.prems [of g] g by simp
  moreover have "cleanup_groups cm groups r' m' = cleanup_groups cm' groups r' m'" for r' m'
    using Cons.IH Cons.prems by simp
  ultimately show ?case by (simp add: g split: prod.splits sum.splits)
qed

text \<open>
  C10. After any sequence of registrations the manager holds exactly the offered
  scanners that are supported on the current platform, in the order offered. So every
  entry of \<open>get_scanner_info\<close> has its supported flag set, the scanners \<open>scan_system\<close>
  runs and the scanners \<open>cleanup\<close> groups items for are all supported, and what a
  scan or cleanup method does on an unsupported scanner has no effect on either
  report: no such scanner is ever called.
\<close>

theorem only_supported_scanners:
  "scanners (registered offered) = filter is_supported offered
   \<and> list_all info_supported (get_scanner_info (registered offered))
   \<and> list_all is_supported (filter_scanners (registered offered) names)
   \<and> list_all (\<lambda>g. is_supported (snd (fst g)))
        (group_items (scanners (registered offered)) its [])
   \<and> ((\<forall>s. is_supported s \<longrightarrow> sm s = sm' s)
        \<longrightarrow> scan_system sm (registered offered) names new_id system
            = scan_system sm' (registered offered) names new_id system)
   \<and> ((\<forall>s. is_supported s \<longrightarrow> cm s = cm' s)
        \<longrightarrow> cleanup cm (registered offered) its dry_run new_id m
            = cleanup cm' (registered offered) its dry_run new_id m)"
proof -
  let ?mgr = "registered offered"
  have sup: "\<And>s. s \<in> set (scanners ?mgr) \<Longrightarrow> is_supported s"
    by (rule registered_supported)
  have a: "scanners ?mgr = filter is_supported offered" by (rule scanners_registered)
  have b: "list_all info_supported (get_scanner_info ?mgr)"
    using sup by (simp add: get_scanner_info_def list_all_iff)
  have c: "list_all is_supported (filter_scanners ?mgr names)"
    using sup filter_scanners_subset [of ?mgr names] by (auto simp add: list_all_iff)
  have keys: "\<And>g. g \<in> set (group_items (scanners ?mgr) its []) \<Longrightarrow> is_supported (snd (fst g))"
    using group_items_keys [of "scanners ?mgr" its "[]"] sup by auto
  then have d: "list_all (\<lambda>g. is_supported (snd (fst g))) (group_items (scanners ?mgr) its [])"
    by (simp add: list_all_iff)
  have e: "scan_system sm ?mgr names new_id system = scan_system sm' ?mgr names new_id system"
    if "\<forall>s. is_supported s \<longrightarrow> sm s = sm' s"
  proof -
    have eq: "run_scanners sm (filter_scanners ?mgr names) r
        = run_scanners sm' (filter_scanners ?mgr names) r" for r
      using that c by (intro run_scanners_cong) (simp add: list_all_iff)
    show ?thesis by (simp add: scan_system_def eq Let_def split: sum.splits)
  qed
  have f: "cleanup cm ?mgr its dry_run new_id m = cleanup cm' ?mgr its dry_run new_id m"
    if "\<forall>s. is_supported s \<longrightarrow> cm s = cm' s"
  proof -
    have eq: "cleanup_groups cm (group_items (scanners ?mgr) its []) r m
        = cleanup_groups cm' (group_items (scanners ?mgr) its []) r m" for r
      using that keys by (intro cleanup_groups_cong) simp
    show ?thesis by (simp add: cleanup_def eq split: prod.splits)
  qed
  from a b c d e f show ?thesis by blast
qed

lemma example_scanners_supported:
  "is_supported temp_scanner" "is_supported chrome_scanner" "is_supported logs_scanner"
  "\<not> is_supported windows_only_scanner"
  by (simp_all add: is_supported_def temp_scanner_def chrome_scanner_def logs_scanner_def
      windows_only_scanner_def)

lemma example_scanners_enabled:
  "enabled (config temp_scanner)" "enabled (config chrome_scanner)"
  "enabled (config logs_scanner)"
  by (simp_all add: temp_scanner_def chrome_scanner_def logs_scanner_def default_config_def)

lemma scanners_three: "scanners three_scanners = [temp_scanner, chrome_scanner, logs_scanner]"
  by (simp add: three_scanners_def scanners_registered example_scanners_supported)

text \<open>Of the four scanners offered, the one for Windows is skipped on Linux; a method
  that raises for unsupported scanners gives the same reports as the inherited one.\<close>

theorem only_supported_scanners_witness:
  "scanners four_offered = [temp_scanner, chrome_scanner, logs_scanner]
   \<and> map info_supported (get_scanner_info four_offered) = [True, True, True]
   \<and> scan_system (scan fnmatch_wild noon) four_offered None ''1a2b3c4d'' ''linux''
     = scan_system scan_or_raise four_offered None ''1a2b3c4d'' ''linux''
   \<and> cleanup scanner_cleanup four_offered [cache_item, log_item] False ''1a2b3c4d''
        example_machine
     = cleanup cleanup_or_raise four_offered [cache_item, log_item] False ''1a2b3c4d''
        example_machine"
  using only_supported_scanners [where offered =
        "[windows_only_scanner, temp_scanner, chrome_scanner, logs_scanner]"
      and names = None and its = "[cache_item, log_item]" and sm = "scan fnmatch_wild noon"
      and sm' = scan_or_raise and cm = scanner_cleanup and cm' = cleanup_or_raise
      and new_id = "''1a2b3c4d''" and system = "''linux''" and dry_run = False
      and m = example_machine]
  by (simp add: four_offered_def scan_or_raise_def cleanup_or_raise_def
      example_scanners_supported get_scanner_info_def fun_eq_iff)

section \<open>Scanning\<close>

lemma run_scanners_items:
  "items (run_scanners sm ss r)
    = items r @ concat (map (\<lambda>s. case sm s of Inl e \<Rightarrow> [] | Inr found \<Rightarrow> found) ss)"
  by (induction ss arbitrary: r) (simp_all split: sum.splits)

lemma run_scanners_errors:
  "errors (run_scanners sm ss r)
    = errors r @ concat (map (\<lambda>s. case sm s of
          Inl e \<Rightarrow> [''Scanner '' @ name s @ '' failed: '' @ exception_str e]
        | Inr found \<Rightarrow> []) ss)"
  by (induction ss arbitrary: r) (simp_all split: sum.splits)

lemma scan_returns:
  "scan fnmatch now s =
    Inr (if is_supported s \<and> enabled (config s)
         then scan_items fnmatch now (config s) (scan_implementation s) [] else [])"
  by (simp add: scan_def)

lemma scan_items_admitted:
  "scan_items fnmatch now cfg g found
    = found @ filter (\<lambda>item. should_include fnmatch now cfg item = Inr True)
        (takeWhile (\<lambda>item. \<not> isl (should_include fnmatch now cfg item)) (yielded g))"
proof (induction g arbitrary: found)
  case Done
  then show ?case by simp
next
  case (Raise e)
  then show ?case by simp
next
  case (Yield item g)
  show ?case
  proof (cases "should_include fnmatch now cfg item")
    case (Inl e)
    then show ?thesis by simp
  next
    case (Inr verdict)
    with Yield show ?thesis by (cases verdict) simp_all
  qed
qed

text \<open>
  C2, as the code has it. On a platform that is recognised, \<open>scan_system\<close> returns a
  report. Every selected scanner whose \<open>scan\<close> call returns contributes what it
  returned, every one whose call raises contributes one entry of the error list and no
  candidate, and the scanners after it still run. The inherited \<open>scan\<close>, however, never
  raises: whether the discovery ends or raises, it returns the candidates admitted
  among those yielded before that (up to the first candidate, if any, on which the
  filtering policy itself raises), so under it the error list is empty.
\<close>

theorem scan_system_isolates_failures:
  assumes "detect_platform system = Inr pf"
  shows "(\<exists>r. scan_system sm mgr names new_id system = Inr r
      \<and> items r = concat (map (\<lambda>s. case sm s of Inl e \<Rightarrow> [] | Inr found \<Rightarrow> found)
                     (filter_scanners mgr names))
      \<and> errors r = concat (map (\<lambda>s. case sm s of
              Inl e \<Rightarrow> [''Scanner '' @ name s @ '' failed: '' @ exception_str e]
            | Inr found \<Rightarrow> [])
          (filter_scanners mgr names)))
    \<and> (\<exists>r. scan_system (scan fnmatch now) mgr names new_id system = Inr r
      \<and> items r = concat (map (\<lambda>s. if is_supported s
              then filter (\<lambda>item. should_include fnmatch now (config s) item = Inr True)
                (takeWhile (\<lambda>item. \<not> isl (should_include fnmatch now (config s) item))
                  (yielded (scan_implementation s)))
              else [])
          (filter_scanners mgr names))
      \<and> errors r = [])"
proof -
  have "concat (map (\<lambda>s. case scan fnmatch now s of Inl e \<Rightarrow> [] | Inr found \<Rightarrow> found)
          (filter_scanners mgr names))
      = concat (map (\<lambda>s. if is_supported s
              then filter (\<lambda>item. should_include fnmatch now (config s) item = Inr True)
                (takeWhile (\<lambda>item. \<not> isl (should_include fnmatch now (config s) item))
                  (yielded (scan_implementation s)))
              else [])
          (filter_scanners mgr names))"
    by (intro arg_cong [where f = concat] map_cong)
      (simp_all add: scan_returns filter_scanners_enabled scan_items_admitted)
  moreover have "concat (map (\<lambda>s. case scan fnmatch now s of
              Inl e \<Rightarrow> [''Scanner '' @ name s @ '' failed: '' @ exception_str e]
            | Inr found \<Rightarrow> [])
          (filter_scanners mgr names)) = []"
    by (simp add: scan_returns)
  ultimately show ?thesis
    using assms
    by (simp add: scan_system_def Let_def run_scanners_items run_scanners_errors)
qed

lemma three_selected:
  "filter_scanners three_scanners None = [temp_scanner, chrome_scanner, logs_scanner]"
  by (simp add: filter_scanners_def scanners_three example_scanners_enabled)

lemma example_verdicts:
  "should_include fnmatch_wild noon default_config cache_item = Inr True"
  "should_include fnmatch_wild noon default_config log_item = Inr True"
  "should_include fnmatch_wild noon default_config browser_cache_item = Inr True"
  "should_include fnmatch_wild noon million_days_config fresh_item
    = Inl (PyException ''date value out of range'')"
  "should_include fnmatch_wild noon million_days_config cache_item = Inr True"
  by (simp_all add: should_include_def default_config_def million_days_config_def
      cache_item_def log_item_def browser_cache_item_def fresh_item_def example_too_recent)

lemma scan_temp_scanner: "scan fnmatch_wild noon temp_scanner = Inr [cache_item]"
  by (simp add: scan_returns example_scanners_supported example_scanners_enabled)
    (simp add: temp_scanner_def example_verdicts)

lemma scan_logs_scanner: "scan fnmatch_wild noon logs_scanner = Inr [log_item]"
  by (simp add: scan_returns example_scanners_supported example_scanners_enabled)
    (simp add: logs_scanner_def example_verdicts)

lemma scan_chrome_scanner: "scan fnmatch_wild noon chrome_scanner = Inr [browser_cache_item]"
  by (simp add: scan_returns example_scanners_supported example_scanners_enabled)
    (simp add: chrome_scanner_def example_verdicts)

text \<open>When the filtering policy raises on a candidate, the loop of \<open>scan\<close> ends there:
  the cache file that the discovery would yield next is never looked at.\<close>

lemma scan_million_days_scanner: "scan fnmatch_wild noon million_days_scanner = Inr []"
  by (simp add: scan_def is_supported_def million_days_scanner_def temp_scanner_def
      million_days_config_def default_config_def)
    (simp add: example_verdicts [unfolded million_days_config_def default_config_def, simplified])

lemma example_scanner_names:
  "name temp_scanner = ''SystemTempScanner''" "name chrome_scanner = ''ChromeScanner''"
  "name logs_scanner = ''SystemLogsScanner''"
  by (simp_all add: temp_scanner_def chrome_scanner_def logs_scanner_def)

lemma example_sizes:
  "size_bytes cache_item = 10240" "size_bytes log_item = 500"
  "size_bytes browser_cache_item = 4096" "size_bytes cookie_item = 2048"
  by (simp_all add: cache_item_def log_item_def browser_cache_item_def cookie_item_def)

text \<open>Three registered, enabled scanners, the \<open>scan\<close> call of the middle one raising:
  the report holds the candidates of the other two and one error entry.\<close>

theorem scan_system_isolates_failures_witness:
  "detect_platform ''linux'' = Inr LINUX
   \<and> filter_scanners three_scanners None = [temp_scanner, chrome_scanner, logs_scanner]
   \<and> scan_system chrome_scan_raises three_scanners None ''1a2b3c4d'' ''linux''
     = Inr \<lparr>scan_id = ''1a2b3c4d'', total_found = 2, total_size = 10740,
            items = [cache_item, log_item],
            errors = [''Scanner ChromeScanner failed: database is locked''],
            platform = LINUX\<rparr>"
  using scan_system_isolates_failures [where system = "''linux''" and pf = LINUX
      and sm = chrome_scan_raises and mgr = three_scanners and names = None
      and new_id = "''1a2b3c4d''" and fnmatch = fnmatch_wild and now = noon]
  by (simp add: detect_platform_def three_selected scan_system_def chrome_scan_raises_def
      example_scanner_names scan_temp_scanner scan_logs_scanner example_sizes)

text \<open>C2, as the spec states it, fails: with three registered, enabled scanners of which
  the middle one raises during its discovery, the report has no error entry at all (and
  holds, next to the candidates of the other two, the candidate the middle scanner had
  admitted before the error).\<close>

theorem discovery_error_leaves_no_entry:
  "scan_implementation chrome_scanner
     = Yield browser_cache_item (Raise (PyException ''database is locked''))
   \<and> filter_scanners three_scanners None = [temp_scanner, chrome_scanner, logs_scanner]
   \<and> scan_system (scan fnmatch_wild noon) three_scanners None ''1a2b3c4d'' ''linux''
     = Inr \<lparr>scan_id = ''1a2b3c4d'', total_found = 3, total_size = 14836,
            items = [cache_item, browser_cache_item, log_item], errors = [],
            platform = LINUX\<rparr>"
  by (simp add: detect_platform_def three_selected scan_system_def scan_temp_scanner
      scan_logs_scanner scan_chrome_scanner example_sizes)
    (simp add: chrome_scanner_def)

section \<open>Safe removal: theorems\<close>

lemma os_error_simps [simp]:
  "os_error (PermissionError msg)" "os_error (OSError msg)" "\<not> os_error (PyException msg)"
  by (simp_all add: os_error_def)

lemma raise_fault_os_error [simp]: "os_error (raise_fault f)"
  by (cases f) simp_all

lemma stat_error: "stat m p = Inl e \<Longrightarrow> os_error e"
  by (auto simp add: stat_def split: option.splits)

lemma path_exists_error: "path_exists m p = Inl e \<Longrightarrow> os_error e"
  by (auto simp add: path_exists_def split: sum.splits dest: stat_error)

lemma is_file_error: "is_file m p = Inl e \<Longrightarrow> os_error e"
  by (auto simp add: is_file_def split: sum.splits dest: stat_error)

lemma is_dir_error: "is_dir m p = Inl e \<Longrightarrow> os_error e"
  by (auto simp add: is_dir_def split: sum.splits dest: stat_error)

lemma is_file_table: "is_file m p = Inr True \<Longrightarrow> map_of (fs_entries m) p = Some File"
  by (auto simp add: is_file_def stat_def split: sum.splits option.splits)

lemma is_dir_table: "is_dir m p = Inr True \<Longrightarrow> map_of (fs_entries m) p = Some Dir"
  by (auto simp add: is_dir_def stat_def split: sum.splits option.splits)

lemma stat_known:
  "is_file m p = Inr True \<or> is_dir m p = Inr True
    \<Longrightarrow> stat_faults m p = None \<and> path_exists m p = Inr True"
  by (auto simp add: is_file_def is_dir_def path_exists_def stat_def
      split: sum.splits option.splits)

lemma unlink_error: "unlink m p = (Some e, m') \<Longrightarrow> os_error e \<and> m' = m"
  by (auto simp add: unlink_def split: option.splits node_kind.splits)

lemma rmdir_error: "rmdir m p = (Some e, m') \<Longrightarrow> os_error e \<and> m' = m"
  by (auto simp add: rmdir_def split: option.splits node_kind.splits if_splits)

lemma unlink_done: "unlink m p = (None, m') \<Longrightarrow> m' = drop_entry m p"
  by (auto simp add: unlink_def split: option.splits node_kind.splits)

lemma rmdir_done: "rmdir m p = (None, m') \<Longrightarrow> m' = drop_entry m p"
  by (auto simp add: rmdir_def split: option.splits node_kind.splits if_splits)

lemma unlink_files_error: "unlink_files m ps = (Some e, m') \<Longrightarrow> os_error e"
proof (induction ps arbitrary: m)
  case Nil
  then show ?case by simp
next
  case (Cons child children)
  then show ?case
    by (auto split: sum.splits bool.splits prod.splits option.splits
        dest: unlink_error is_file_error)
qed

lemma remove_body_error: "remove_body m p = (Some e, m') \<Longrightarrow> os_error e"
  by (auto simp add: remove_body_def split: sum.splits bool.splits prod.splits option.splits
      dest: unlink_error rmdir_error unlink_files_error is_file_error is_dir_error)

lemma safe_remove_caught:
  "remove_body m p = (Some e, m') \<Longrightarrow> path_exists m p = Inr True
    \<Longrightarrow> \<not> is_file_locked (processes m) p \<Longrightarrow> safe_remove m p = (Inr False, m')"
  using remove_body_error [of m p e m']
  by (cases e) (simp_all add: safe_remove_def)

lemma safe_remove_raises_iff: "fst (safe_remove m p) = Inl e \<longleftrightarrow> path_exists m p = Inl e"
proof (cases "path_exists m p")
  case (Inl e')
  then show ?thesis by (simp add: safe_remove_def)
next
  case (Inr found)
  obtain r m' where rb: "remove_body m p = (r, m')" by (cases "remove_body m p")
  show ?thesis
  proof (cases r)
    case None
    with Inr rb show ?thesis by (cases found) (simp_all add: safe_remove_def)
  next
    case (Some e')
    with Inr rb remove_body_error [of m p e' m'] show ?thesis
      by (cases e'; cases found) (simp_all add: safe_remove_def)
  qed
qed

lemma map_of_filter_out: "map_of (filter (\<lambda>e. fst e \<noteq> p) es) p = None"
  by (induction es) auto

lemma map_of_filter_other: "q \<noteq> p \<Longrightarrow> map_of (filter (\<lambda>e. fst e \<noteq> p) es) q = map_of es q"
  by (induction es) auto

lemma drop_entry_simps [simp]:
  "stat_faults (drop_entry m p) = stat_faults m"
  "map_of (fs_entries (drop_entry m p)) p = None"
  "q \<noteq> p \<Longrightarrow> map_of (fs_entries (drop_entry m p)) q = map_of (fs_entries m) q"
  by (simp_all add: drop_entry_def map_of_filter_out map_of_filter_other)

lemma unlink_files_keeps:
  "unlink_files m ps = (r, m') \<Longrightarrow> map_of (fs_entries m) q = Some Dir
    \<Longrightarrow> map_of (fs_entries m') q = Some Dir \<and> stat_faults m' = stat_faults m"
proof (induction ps arbitrary: m)
  case Nil
  then show ?case by simp
next
  case (Cons child children)
  show ?case
  proof (cases "is_file m child")
    case (Inl e)
    with Cons.prems show ?thesis by simp
  next
    case (Inr regular)
    show ?thesis
    proof (cases regular)
      case False
      with Inr Cons show ?thesis by simp
    next
      case True
      with Inr have ne: "q \<noteq> child" using Cons.prems(2) by (auto dest: is_file_table)
      obtain e m1 where un: "unlink m child = (e, m1)" by (cases "unlink m child")
      show ?thesis
      proof (cases e)
        case (Some ex)
        with un Inr True Cons.prems unlink_error [of m child ex m1] show ?thesis by simp
      next
        case None
        with un have m1: "m1 = drop_entry m child" by (simp add: unlink_done)
        with Cons.prems(2) ne have "map_of (fs_entries m1) q = Some Dir" by simp
        moreover from un None Inr True Cons.prems(1)
        have "unlink_files m1 children = (r, m')" by simp
        ultimately have "map_of (fs_entries m') q = Some Dir \<and> stat_faults m' = stat_faults m1"
          by (rule Cons.IH [rotated])
        with m1 show ?thesis by simp
      qed
    qed
  qed
qed

lemma unlink_files_stat_faults: "unlink_files m ps = (r, m') \<Longrightarrow> stat_faults m' = stat_faults m"
proof (induction ps arbitrary: m)
  case Nil
  then show ?case by simp
next
  case (Cons child children)
  then show ?case
    by (auto split: sum.splits bool.splits prod.splits option.splits
        dest!: unlink_error unlink_done)
qed

lemma remove_body_ok_gone:
  assumes "remove_body m p = (None, m')" and "is_file m p = Inr True \<or> is_dir m p = Inr True"
  shows "path_exists m' p = Inr False"
proof -
  from assms(2) have sf: "stat_faults m p = None" by (simp add: stat_known)
  have "stat_faults m' = stat_faults m \<and> map_of (fs_entries m') p = None"
  proof (cases "is_file m p = Inr True")
    case True
    with assms(1) have "m' = drop_entry m p" by (simp add: remove_body_def unlink_done)
    then show ?thesis by simp
  next
    case False
    with assms(2) have d: "is_dir m p = Inr True" by simp
    then have "is_file m p = Inr False"
      by (auto simp add: is_dir_def is_file_def split: sum.splits)
    with assms(1) d obtain m1 where uf: "unlink_files m (rglob m p) = (None, m1)"
      and rd: "rmdir m1 p = (None, m')"
      by (auto simp add: remove_body_def split: prod.splits option.splits)
    from rd have "m' = drop_entry m1 p" by (rule rmdir_done)
    with unlink_files_stat_faults [OF uf] show ?thesis by simp
  qed
  with sf show ?thesis by (simp add: path_exists_def stat_def)
qed

lemma safe_remove_true:
  "fst (safe_remove m p) = Inr True \<Longrightarrow> remove_body m p = (None, snd (safe_remove m p))"
  by (auto simp add: safe_remove_def
      split: sum.splits bool.splits if_splits prod.splits option.splits py_exception.splits)

lemma locked_found:
  "Proc (Some files) \<in> set procs \<Longrightarrow> p \<in> set files \<Longrightarrow> IterError \<notin> set procs
    \<Longrightarrow> is_file_locked procs p"
  by (induction procs p rule: is_file_locked.induct) auto

text \<open>
  C4, what the code does. An exception leaves \<open>safe_remove\<close> exactly when the test
  \<^verbatim>\<open>path.exists()\<close>, which stands before the \<^verbatim>\<open>try\<close>, raises it: for a path on which
  \<^verbatim>\<open>stat\<close> is refused the \<^verbatim>\<open>PermissionError\<close> passes through to the caller. In every
  other case the method returns a boolean: false with nothing changed for a path that
  does not exist and for a path the hazard check finds open in a process (so for any
  path that a process with readable open files holds, when the enumeration of the
  processes does not fail), false whenever a call inside the \<^verbatim>\<open>try\<close> block raises, false
  with nothing changed for a file the operating system refuses to delete, and false
  with nothing changed on a second call after a call that removed a file or a directory.
\<close>

theorem safe_remove_raises_with_exists:
  "(fst (safe_remove m p) = Inl e \<longleftrightarrow> path_exists m p = Inl e)
   \<and> (stat_faults m p = Some f \<longrightarrow> safe_remove m p = (Inl (raise_fault f), m))
   \<and> (path_exists m p = Inr False \<longrightarrow> safe_remove m p = (Inr False, m))
   \<and> (path_exists m p = Inr True \<and> is_file_locked (processes m) p
        \<longrightarrow> safe_remove m p = (Inr False, m))
   \<and> (path_exists m p = Inr True \<and> Proc (Some files) \<in> set (processes m) \<and> p \<in> set files
        \<and> IterError \<notin> set (processes m) \<longrightarrow> safe_remove m p = (Inr False, m))
   \<and> (path_exists m p = Inr True \<and> \<not> is_file_locked (processes m) p
        \<and> fst (remove_body m p) \<noteq> None \<longrightarrow> fst (safe_remove m p) = Inr False)
   \<and> (is_file m p = Inr True \<and> fs_faults m p \<noteq> None \<longrightarrow> safe_remove m p = (Inr False, m))
   \<and> (fst (safe_remove m p) = Inr True \<and> (is_file m p = Inr True \<or> is_dir m p = Inr True)
        \<longrightarrow> safe_remove (snd (safe_remove m p)) p = (Inr False, snd (safe_remove m p)))"
proof (intro conjI impI)
  show "fst (safe_remove m p) = Inl e \<longleftrightarrow> path_exists m p = Inl e"
    by (rule safe_remove_raises_iff)
  show "safe_remove m p = (Inl (raise_fault f), m)" if "stat_faults m p = Some f"
    using that by (simp add: safe_remove_def path_exists_def stat_def)
  show "safe_remove m p = (Inr False, m)" if "path_exists m p = Inr False"
    using that by (simp add: safe_remove_def)
  show "safe_remove m p = (Inr False, m)"
    if "path_exists m p = Inr True \<and> is_file_locked (processes m) p"
    using that by (simp add: safe_remove_def)
  show "safe_remove m p = (Inr False, m)"
    if "path_exists m p = Inr True \<and> Proc (Some files) \<in> set (processes m) \<and> p \<in> set files
      \<and> IterError \<notin> set (processes m)"
  proof -
    from that have "is_file_locked (processes m) p" by (blast intro: locked_found)
    with that show ?thesis by (simp add: safe_remove_def)
  qed
  show "fst (safe_remove m p) = Inr False"
    if "path_exists m p = Inr True \<and> \<not> is_file_locked (processes m) p
      \<and> fst (remove_body m p) \<noteq> None"
  proof -
    from that obtain e' m' where "remove_body m p = (Some e', m')"
      by (cases "remove_body m p") auto
    with that show ?thesis by (simp add: safe_remove_caught)
  qed
  show "safe_remove m p = (Inr False, m)" if "is_file m p = Inr True \<and> fs_faults m p \<noteq> None"
  proof -
    from that obtain f' where f': "fs_faults m p = Some f'" by auto
    from that have ex: "path_exists m p = Inr True" by (simp add: stat_known)
    have rb: "remove_body m p = (Some (raise_fault f'), m)"
      using that f' by (simp add: remove_body_def unlink_def)
    show ?thesis
    proof (cases "is_file_locked (processes m) p")
      case True
      then show ?thesis by (simp add: safe_remove_def ex)
    next
      case False
      with rb ex show ?thesis by (simp add: safe_remove_caught)
    qed
  qed
  show "safe_remove (snd (safe_remove m p)) p = (Inr False, snd (safe_remove m p))"
    if "fst (safe_remove m p) = Inr True \<and> (is_file m p = Inr True \<or> is_dir m p = Inr True)"
  proof -
    from that have "remove_body m p = (None, snd (safe_remove m p))"
      by (simp add: safe_remove_true)
    with that have "path_exists (snd (safe_remove m p)) p = Inr False"
      by (simp add: remove_body_ok_gone)
    then show ?thesis by (simp add: safe_remove_def)
  qed
qed

lemma example_stat:
  "stat example_machine [''tmp'', ''none''] = Inr None"
  "stat example_machine [''tmp'', ''busy''] = Inr (Some File)"
  "stat example_machine [''tmp'', ''cache.bin''] = Inr (Some File)"
  "stat example_machine [''var'', ''log'', ''app.log''] = Inr (Some File)"
  "stat example_machine [''tmp'', ''d''] = Inr (Some Dir)"
  "stat example_machine [''root'', ''key''] = Inl (PermissionError ''Permission denied'')"
  by (simp_all add: stat_def example_machine_def)

lemma remove_cache_bin:
  "safe_remove example_machine [''tmp'', ''cache.bin'']
   = (Inr True, example_machine\<lparr>fs_entries :=
      [([''tmp''], Dir), ([''tmp'', ''busy''], File),
       ([''tmp'', ''d''], Dir), ([''tmp'', ''d'', ''s''], Dir),
       ([''tmp'', ''d'', ''s'', ''f''], File),
       ([''var''], Dir), ([''var'', ''log''], Dir), ([''var'', ''log'', ''app.log''], File),
       ([''root''], Dir), ([''root'', ''key''], File)]\<rparr>)"
  by (simp add: safe_remove_def path_exists_def is_file_def remove_body_def example_stat)
    (simp add: example_machine_def unlink_def drop_entry_def)

lemma remove_app_log:
  "fs_entries m = [([''tmp''], Dir), ([''tmp'', ''busy''], File),
       ([''tmp'', ''d''], Dir), ([''tmp'', ''d'', ''s''], Dir),
       ([''tmp'', ''d'', ''s'', ''f''], File),
       ([''var''], Dir), ([''var'', ''log''], Dir), ([''var'', ''log'', ''app.log''], File),
       ([''root''], Dir), ([''root'', ''key''], File)]
   \<Longrightarrow> stat_faults m = stat_faults example_machine \<Longrightarrow> fs_faults m = fs_faults example_machine
   \<Longrightarrow> processes m = processes example_machine
   \<Longrightarrow> safe_remove m [''var'', ''log'', ''app.log''] = (Inr False, m)"
  by (simp add: safe_remove_def example_machine_def path_exists_def is_file_def stat_def
      remove_body_def unlink_def)

text \<open>On the example machine the call for \<^verbatim>\<open>/root/key\<close> raises. The calls for a path
  that does not exist, for the file a process holds open and for the log file the
  operating system refuses to delete return false and change nothing; the cache file
  is removed by the first call and reported as not removed by the second.\<close>

theorem safe_remove_raises_with_exists_witness:
  "safe_remove example_machine [''root'', ''key'']
     = (Inl (PermissionError ''Permission denied''), example_machine)
   \<and> safe_remove example_machine [''tmp'', ''none''] = (Inr False, example_machine)
   \<and> safe_remove example_machine [''tmp'', ''busy''] = (Inr False, example_machine)
   \<and> safe_remove example_machine [''var'', ''log'', ''app.log''] = (Inr False, example_machine)
   \<and> fst (safe_remove example_machine [''tmp'', ''cache.bin'']) = Inr True
   \<and> fst (safe_remove (snd (safe_remove example_machine [''tmp'', ''cache.bin'']))
        [''tmp'', ''cache.bin'']) = Inr False"
  using safe_remove_raises_with_exists [where m = example_machine
      and p = "[''root'', ''key'']" and f = Denied and files = "[]"
      and e = "PermissionError ''Permission denied''"]
    safe_remove_raises_with_exists [where m = example_machine and p = "[''tmp'', ''none'']"
      and files = "[]" and f = Denied and e = "PermissionError ''Permission denied''"]
    safe_remove_raises_with_exists [where m = example_machine and p = "[''tmp'', ''busy'']"
      and files = "[[''tmp'', ''busy'']]" and f = Denied
      and e = "PermissionError ''Permission denied''"]
    safe_remove_raises_with_exists [where m = example_machine
      and p = "[''var'', ''log'', ''app.log'']" and files = "[]" and f = Denied
      and e = "PermissionError ''Permission denied''"]
    safe_remove_raises_with_exists [where m = example_machine
      and p = "[''tmp'', ''cache.bin'']" and files = "[]" and f = Denied
      and e = "PermissionError ''Permission denied''"]
  by (simp add: remove_cache_bin path_exists_def is_file_def example_stat)
    (simp add: example_machine_def)

lemma rglob_holds:
  "map_of (fs_entries m) q = Some Dir \<Longrightarrow> strict_prefix p q \<Longrightarrow> q \<in> set (rglob m p)"
proof -
  assume "map_of (fs_entries m) q = Some Dir" and sp: "strict_prefix p q"
  then have "(q, Dir) \<in> set (fs_entries m)" by (simp add: map_of_SomeD)
  with sp show ?thesis by (force simp add: rglob_def)
qed

text \<open>
  C3, what the code does instead. The loop of \<open>remove_body\<close> unlinks the regular files
  below the directory and never removes a subdirectory, so \<^verbatim>\<open>rmdir\<close> then finds the
  directory not empty: for a directory with a subdirectory anywhere below it,
  \<open>safe_remove\<close> returns false, and the directory and the subdirectory are still there.
\<close>

theorem safe_remove_keeps_subdirectories:
  assumes "is_dir m p = Inr True" and "strict_prefix p q"
    and "map_of (fs_entries m) q = Some Dir"
  shows "fst (safe_remove m p) = Inr False
    \<and> map_of (fs_entries (snd (safe_remove m p))) p = Some Dir
    \<and> map_of (fs_entries (snd (safe_remove m p))) q = Some Dir"
proof (cases "is_file_locked (processes m) p")
  case True
  with assms show ?thesis by (simp add: safe_remove_def stat_known is_dir_table)
next
  case False
  from assms(1) have ex: "path_exists m p = Inr True" and nf: "is_file m p = Inr False"
    and tp: "map_of (fs_entries m) p = Some Dir"
    by (auto simp add: is_dir_def path_exists_def is_file_def stat_def
        split: sum.splits option.splits)
  obtain r m1 where uf: "unlink_files m (rglob m p) = (r, m1)"
    by (cases "unlink_files m (rglob m p)")
  have dp: "map_of (fs_entries m1) p = Some Dir" and dq: "map_of (fs_entries m1) q = Some Dir"
    using uf tp assms(3) by (auto dest: unlink_files_keeps)
  show ?thesis
  proof (cases r)
    case (Some e)
    with uf nf assms(1) have "remove_body m p = (Some e, m1)"
      by (simp add: remove_body_def)
    with ex False dp dq show ?thesis by (simp add: safe_remove_caught)
  next
    case None
    have "rglob m1 p \<noteq> []" using rglob_holds [OF dq assms(2)] by auto
    with dp have "\<exists>e. rmdir m1 p = (Some e, m1)"
      by (auto simp add: rmdir_def split: option.splits)
    then obtain e where "rmdir m1 p = (Some e, m1)" ..
    with None uf nf assms(1) have "remove_body m p = (Some e, m1)"
      by (simp add: remove_body_def)
    with ex False dp dq show ?thesis by (simp add: safe_remove_caught)
  qed
qed

text \<open>On the example machine \<^verbatim>\<open>/tmp/d\<close> holds the subdirectory \<^verbatim>\<open>s\<close> with the file
  \<^verbatim>\<open>s/f\<close>: the call deletes the file, leaves both directories and returns false.\<close>

theorem safe_remove_keeps_subdirectories_witness:
  "is_dir example_machine [''tmp'', ''d''] = Inr True
   \<and> strict_prefix [''tmp'', ''d''] [''tmp'', ''d'', ''s'']
   \<and> map_of (fs_entries example_machine) [''tmp'', ''d'', ''s''] = Some Dir
   \<and> is_file example_machine [''tmp'', ''d'', ''s'', ''f''] = Inr True
   \<and> \<not> is_file_locked (processes example_machine) [''tmp'', ''d'']
   \<and> safe_remove example_machine [''tmp'', ''d'']
     = (Inr False, example_machine\<lparr>fs_entries :=
        [([''tmp''], Dir), ([''tmp'', ''cache.bin''], File), ([''tmp'', ''busy''], File),
         ([''tmp'', ''d''], Dir), ([''tmp'', ''d'', ''s''], Dir),
         ([''var''], Dir), ([''var'', ''log''], Dir),
         ([''var'', ''log'', ''app.log''], File),
         ([''root''], Dir), ([''root'', ''key''], File)]\<rparr>)"
  using safe_remove_keeps_subdirectories [where m = example_machine
      and p = "[''tmp'', ''d'']" and q = "[''tmp'', ''d'', ''s'']"]
  by (simp add: safe_remove_def example_machine_def path_exists_def is_file_def is_dir_def
      stat_def remove_body_def rglob_def unlink_def rmdir_def drop_entry_def)

section \<open>Cleanup: theorems\<close>

lemma cleanup_groups_removed:
  "removed_items (fst (cleanup_groups cm groups r m))
    = removed_items r @ concat (map credited (cleanup_calls cm groups m))"
proof (induction groups arbitrary: r m)
  case Nil
  then show ?case by simp
next
  case (Cons g groups)
  obtain i s its where g: "g = ((i, s), its)" by (metis prod.collapse)
  show ?case
    by (simp add: g Cons.IH credited_def split: prod.splits sum.splits)
qed

lemma cleanup_groups_failed:
  "failed_items (fst (cleanup_groups cm groups r m))
    = failed_items r @ concat (map failures (cleanup_calls cm groups m))"
proof (induction groups arbitrary: r m)
  case Nil
  then show ?case by simp
next
  case (Cons g groups)
  obtain i s its where g: "g = ((i, s), its)" by (metis prod.collapse)
  show ?case
    by (simp add: g Cons.IH failures_def split: prod.splits sum.splits)
qed

lemma cleanup_calls_groups:
  "map (\<lambda>call. (fst call, fst (snd call))) (cleanup_calls cm groups m) = groups"
  by (induction groups arbitrary: m) (auto split: prod.splits)

lemma calls_of_group:
  assumes "(key, its') \<in> set groups"
  shows "\<exists>outcome. (key, its', outcome) \<in> set (cleanup_calls cm groups m)"
proof -
  from assms have "(key, its')
      \<in> set (map (\<lambda>call. (fst call, fst (snd call))) (cleanup_calls cm groups m))"
    by (simp only: cleanup_calls_groups)
  then show ?thesis by force
qed

lemma find_scanner_index:
  "find_scanner ss c i = Some (k, s) \<Longrightarrow> i \<le> k \<and> k - i < length ss \<and> s = ss ! (k - i)"
proof (induction ss c i rule: find_scanner.induct)
  case (1 c i)
  then show ?case by simp
next
  case (2 s' rest c i)
  show ?case
  proof (cases "get_category s' = c")
    case True
    with 2 show ?thesis by simp
  next
    case False
    with 2 have "Suc i \<le> k \<and> k - Suc i < length rest \<and> s = rest ! (k - Suc i)" by simp
    then show ?thesis by (auto simp add: Suc_diff_le nth_Cons')
  qed
qed

lemma add_item_keyed:
  "keyed_by ss groups \<Longrightarrow> snd key = ss ! fst key \<Longrightarrow> keyed_by ss (add_item groups key item)"
  by (induction groups key item rule: add_item.induct) (auto simp add: keyed_by_def)

lemma add_item_holds:
  "keyed_by ss groups \<Longrightarrow> snd key = ss ! fst key
    \<Longrightarrow> \<exists>its'. (key, its') \<in> set (add_item groups key item) \<and> item \<in> set its'"
proof (induction groups key item rule: add_item.induct)
  case (1 key item)
  then show ?case by simp
next
  case (2 key' its groups key item)
  show ?case
  proof (cases "fst key' = fst key")
    case True
    with 2 have "key' = key" by (simp add: keyed_by_def prod_eq_iff)
    with True show ?thesis by auto
  next
    case False
    with 2 show ?thesis by (auto simp add: keyed_by_def)
  qed
qed

lemma add_item_keeps:
  "(key', its') \<in> set groups \<Longrightarrow> x \<in> set its'
    \<Longrightarrow> \<exists>its''. (key', its'') \<in> set (add_item groups key item) \<and> x \<in> set its''"
  by (induction groups key item rule: add_item.induct) (auto split: if_splits)

lemma group_items_keeps:
  "(key', its') \<in> set groups \<Longrightarrow> x \<in> set its'
    \<Longrightarrow> \<exists>its''. (key', its'') \<in> set (group_items ss rest groups) \<and> x \<in> set its''"
proof (induction rest arbitrary: groups its')
  case Nil
  then show ?case by auto
next
  case (Cons item rest)
  show ?case
  proof (cases "find_scanner ss (category item) 0")
    case None
    with Cons show ?thesis by simp
  next
    case (Some key)
    from add_item_keeps [OF Cons.prems, of key item]
    obtain its'' where "(key', its'') \<in> set (add_item groups key item)" "x \<in> set its''"
      by blast
    from Cons.IH [OF this] Some show ?thesis by simp
  qed
qed

lemma group_items_dispatches:
  "item \<in> set its \<Longrightarrow> find_scanner ss (category item) 0 = Some key \<Longrightarrow> keyed_by ss groups
    \<Longrightarrow> \<exists>its'. (key, its') \<in> set (group_items ss its groups) \<and> item \<in> set its'"
proof (induction its arbitrary: groups)
  case Nil
  then show ?case by simp
next
  case (Cons first rest)
  show ?case
  proof (cases "find_scanner ss (category first) 0")
    case None
    with Cons.prems have "item \<in> set rest" by auto
    with Cons None show ?thesis by simp
  next
    case (Some key1)
    have key1: "snd key1 = ss ! fst key1"
      using find_scanner_index [of ss "category first" 0 "fst key1" "snd key1"] Some by simp
    have keyed: "keyed_by ss (add_item groups key1 first)"
      using Cons.prems(3) key1 by (rule add_item_keyed)
    show ?thesis
    proof (cases "item = first")
      case True
      with Some Cons.prems(2) have "key1 = key" by simp
      with add_item_holds [OF Cons.prems(3) key1, of first] True
      obtain its' where "(key, its') \<in> set (add_item groups key1 first)" "item \<in> set its'"
        by blast
      from group_items_keeps [OF this, of ss rest] Some show ?thesis by simp
    next
      case False
      with Cons.prems have "item \<in> set rest" by simp
      from Cons.IH [OF this Cons.prems(2) keyed] Some show ?thesis by simp
    qed
  qed
qed

lemma call_errors_simps:
  "call_errors (key, scanner_items, Inl e)
    = [''Cleanup failed for scanner '' @ name (snd key) @ '': '' @ exception_str e]"
  "call_errors (key, scanner_items, Inr removed_paths) = []"
  by (simp_all add: call_errors_def)

lemma cleanup_groups_errors:
  "cleanup_errors (fst (cleanup_groups cm groups r m))
    = cleanup_errors r @ concat (map call_errors (cleanup_calls cm groups m))"
proof (induction groups arbitrary: r m)
  case Nil
  then show ?case by simp
next
  case (Cons g groups)
  obtain i s its where g: "g = ((i, s), its)" by (metis prod.collapse)
  show ?case
    by (simp add: g Cons.IH call_errors_simps split: prod.splits sum.splits)
qed

lemma group_items_keyed:
  "keyed_by ss groups \<Longrightarrow> keyed_by ss (group_items ss its groups)"
proof (induction its arbitrary: groups)
  case Nil
  then show ?case by simp
next
  case (Cons item rest)
  show ?case
  proof (cases "find_scanner ss (category item) 0")
    case None
    with Cons show ?thesis by simp
  next
    case (Some key)
    have "snd key = ss ! fst key"
      using find_scanner_index [of ss "category item" 0 "fst key" "snd key"] Some by simp
    with Cons.prems have "keyed_by ss (add_item groups key item)" by (rule add_item_keyed)
    with Cons.IH Some show ?thesis by simp
  qed
qed

lemma add_item_owned:
  "owned_by ss groups \<Longrightarrow> keyed_by ss groups \<Longrightarrow> snd key = ss ! fst key
    \<Longrightarrow> find_scanner ss (category item) 0 = Some key
    \<Longrightarrow> owned_by ss (add_item groups key item)"
proof (induction groups key item rule: add_item.induct)
  case (1 key item)
  then show ?case by (simp add: owned_by_def)
next
  case (2 key' its groups key item)
  show ?case
  proof (cases "fst key' = fst key")
    case True
    with 2 have "key' = key" by (simp add: keyed_by_def prod_eq_iff)
    with True 2 show ?thesis by (simp add: owned_by_def)
  next
    case False
    with 2 show ?thesis by (simp add: owned_by_def keyed_by_def)
  qed
qed

lemma group_items_owned_by:
  "owned_by ss groups \<Longrightarrow> keyed_by ss groups \<Longrightarrow> owned_by ss (group_items ss its groups)"
proof (induction its arbitrary: groups)
  case Nil
  then show ?case by simp
next
  case (Cons item rest)
  show ?case
  proof (cases "find_scanner ss (category item) 0")
    case None
    with Cons show ?thesis by simp
  next
    case (Some key)
    have key: "snd key = ss ! fst key"
      using find_scanner_index [of ss "category item" 0 "fst key" "snd key"] Some by simp
    have "owned_by ss (add_item groups key item)"
      using Cons.prems key Some by (rule add_item_owned)
    moreover have "keyed_by ss (add_item groups key item)"
      using Cons.prems(2) key by (rule add_item_keyed)
    ultimately show ?thesis using Cons.IH Some by simp
  qed
qed

lemma add_item_indices:
  "map (\<lambda>g. fst (fst g)) (add_item groups key item)
    = (if fst key \<in> set (map (\<lambda>g. fst (fst g)) groups) then map (\<lambda>g. fst (fst g)) groups
       else map (\<lambda>g. fst (fst g)) groups @ [fst key])"
  by (induction groups key item rule: add_item.induct) auto

lemma group_items_distinct:
  "distinct (map (\<lambda>g. fst (fst g)) groups)
    \<Longrightarrow> distinct (map (\<lambda>g. fst (fst g)) (group_items ss its groups))"
proof (induction its arbitrary: groups)
  case Nil
  then show ?case by simp
next
  case (Cons item rest)
  show ?case
  proof (cases "find_scanner ss (category item) 0")
    case None
    with Cons show ?thesis by simp
  next
    case (Some key)
    from Cons.prems have "distinct (map (\<lambda>g. fst (fst g)) (add_item groups key item))"
      by (simp add: add_item_indices)
    with Cons.IH Some show ?thesis by simp
  qed
qed

lemma same_index_same:
  assumes "distinct (map f xs)" and "x \<in> set xs" and "y \<in> set xs" and "f x = f y"
  shows "x = y"
  using assms by (meson distinct_map inj_on_eq_iff)

lemma raised_call_credits_nothing:
  assumes call: "(key, scanner_items, Inl e) \<in> set (cleanup_calls cm groups m)"
    and item: "item \<in> set scanner_items"
    and owned: "owned_by ss groups"
    and dist: "distinct (map (\<lambda>g. fst (fst g)) groups)"
  shows "item \<notin> set (concat (map credited (cleanup_calls cm groups m)))"
proof
  let ?calls = "cleanup_calls cm groups m"
  assume "item \<in> set (concat (map credited ?calls))"
  then obtain key2 its2 out2 where c2: "(key2, its2, out2) \<in> set ?calls"
    and cr: "item \<in> set (credited (key2, its2, out2))"
    by auto
  from cr obtain ps where out2: "out2 = Inr ps" and item2: "item \<in> set its2"
    by (cases out2) (auto simp add: credited_def)
  have groups: "map (\<lambda>call. (fst call, fst (snd call))) ?calls = groups"
    by (rule cleanup_calls_groups)
  from call have g1: "(key, scanner_items) \<in> set groups"
    by (subst groups [symmetric]) force
  from c2 have g2: "(key2, its2) \<in> set groups"
    by (subst groups [symmetric]) force
  from owned g1 item have "find_scanner ss (category item) 0 = Some key"
    by (auto simp add: owned_by_def list_all_iff)
  moreover from owned g2 item2 have "find_scanner ss (category item) 0 = Some key2"
    by (auto simp add: owned_by_def list_all_iff)
  ultimately have same: "key2 = key" by simp
  have "map (\<lambda>call. fst (fst call)) ?calls = map (\<lambda>g. fst (fst g)) groups"
    by (subst groups [symmetric]) (simp add: comp_def)
  with dist have "distinct (map (\<lambda>call. fst (fst call)) ?calls)" by simp
  from same_index_same [OF this call c2] same out2 show False by simp
qed

lemma cleanup_report:
  "removed_items (fst (cleanup cm mgr its False new_id m))
     = concat (map credited (cleanup_calls cm (group_items (scanners mgr) its []) m))"
  "failed_items (fst (cleanup cm mgr its False new_id m))
     = concat (map failures (cleanup_calls cm (group_items (scanners mgr) its []) m))"
  "total_freed (fst (cleanup cm mgr its False new_id m))
     = sum_list (map size_bytes (removed_items (fst (cleanup cm mgr its False new_id m))))"
  "total_removed (fst (cleanup cm mgr its False new_id m))
     = int (length (removed_items (fst (cleanup cm mgr its False new_id m))))"
  "cleanup_errors (fst (cleanup cm mgr its False new_id m))
     = concat (map call_errors (cleanup_calls cm (group_items (scanners mgr) its []) m))"
proof -
  let ?groups = "group_items (scanners mgr) its []"
  let ?r0 = "\<lparr>cleanup_id = new_id, total_removed = 0, total_freed = 0,
                removed_items = [], failed_items = [], cleanup_errors = []\<rparr>"
  obtain r m' where run: "cleanup_groups cm ?groups ?r0 m = (r, m')"
    by (cases "cleanup_groups cm ?groups ?r0 m")
  have report: "fst (cleanup cm mgr its False new_id m)
      = r\<lparr>total_removed := int (length (removed_items r)),
           total_freed := sum_list (map size_bytes (removed_items r))\<rparr>"
    by (simp add: cleanup_def run)
  show "removed_items (fst (cleanup cm mgr its False new_id m))
     = concat (map credited (cleanup_calls cm ?groups m))"
    using cleanup_groups_removed [of cm ?groups ?r0 m] run by (simp add: report)
  show "failed_items (fst (cleanup cm mgr its False new_id m))
     = concat (map failures (cleanup_calls cm ?groups m))"
    using cleanup_groups_failed [of cm ?groups ?r0 m] run by (simp add: report)
  show "total_freed (fst (cleanup cm mgr its False new_id m))
     = sum_list (map size_bytes (removed_items (fst (cleanup cm mgr its False new_id m))))"
    and "total_removed (fst (cleanup cm mgr its False new_id m))
     = int (length (removed_items (fst (cleanup cm mgr its False new_id m))))"
    by (simp_all add: report)
  show "cleanup_errors (fst (cleanup cm mgr its False new_id m))
     = concat (map call_errors (cleanup_calls cm ?groups m))"
    using cleanup_groups_errors [of cm ?groups ?r0 m] run by (simp add: report)
qed

lemma cleanup_raised:
  assumes "(key, scanner_items, Inl e)
      \<in> set (cleanup_calls cm (group_items (scanners mgr) its []) m)"
    and "item \<in> set scanner_items"
  shows "item \<notin> set (removed_items (fst (cleanup cm mgr its False new_id m)))
    \<and> ''Cleanup failed for scanner '' @ name (snd key) @ '': '' @ exception_str e
      \<in> set (cleanup_errors (fst (cleanup cm mgr its False new_id m)))"
proof
  have "owned_by (scanners mgr) (group_items (scanners mgr) its [])"
    by (rule group_items_owned_by) (simp_all add: owned_by_def keyed_by_def)
  moreover have "distinct (map (\<lambda>g. fst (fst g)) (group_items (scanners mgr) its []))"
    by (rule group_items_distinct) simp
  ultimately show "item \<notin> set (removed_items (fst (cleanup cm mgr its False new_id m)))"
    unfolding cleanup_report using assms by (intro raised_call_credits_nothing)
  have "''Cleanup failed for scanner '' @ name (snd key) @ '': '' @ exception_str e
      \<in> set (call_errors (key, scanner_items, Inl e))"
    by (simp add: call_errors_simps)
  with assms(1)
  show "''Cleanup failed for scanner '' @ name (snd key) @ '': '' @ exception_str e
      \<in> set (cleanup_errors (fst (cleanup cm mgr its False new_id m)))"
    unfolding cleanup_report by (auto simp del: append.simps)
qed

lemma cleanup_dispatch:
  assumes "item \<in> set its" and "find_scanner (scanners mgr) (category item) 0 = Some key"
  shows "\<exists>scanner_items outcome.
      (key, scanner_items, outcome)
        \<in> set (cleanup_calls cm (group_items (scanners mgr) its []) m)
      \<and> item \<in> set scanner_items"
proof -
  from assms obtain its' where "(key, its') \<in> set (group_items (scanners mgr) its [])"
    and "item \<in> set its'"
    using group_items_dispatches [of item its "scanners mgr" key "[]"]
    by (auto simp add: keyed_by_def)
  with calls_of_group [of key its' "group_items (scanners mgr) its []" cm m]
  show ?thesis by blast
qed

lemma cleanup_outcome:
  assumes "(key, scanner_items, Inr removed_paths)
      \<in> set (cleanup_calls cm (group_items (scanners mgr) its []) m)"
    and "item \<in> set scanner_items"
  shows "if path item \<in> set removed_paths
      then item \<in> set (removed_items (fst (cleanup cm mgr its False new_id m)))
      else \<lparr>failed_path = path_str (path item), failed_error = ''Cleanup failed'',
            failed_scanner = name (snd key)\<rparr>
           \<in> set (failed_items (fst (cleanup cm mgr its False new_id m)))"
proof (cases "path item \<in> set removed_paths")
  case True
  with assms have "item \<in> set (credited (key, scanner_items, Inr removed_paths))"
    by (simp add: credited_def)
  with assms True show ?thesis unfolding cleanup_report by auto
next
  case False
  with assms have "failure_record (snd key) item
      \<in> set (failures (key, scanner_items, Inr removed_paths))"
    by (simp add: failures_def)
  with assms have "failure_record (snd key) item
      \<in> set (failed_items (fst (cleanup cm mgr its False new_id m)))"
    unfolding cleanup_report by auto
  with False show ?thesis by (simp add: failure_record_def)
qed

lemma scanner_cleanup_returns: "\<exists>removed_paths. fst (scanner_cleanup s its m) = Inr removed_paths"
  by (simp add: scanner_cleanup_def split: prod.splits)

lemma scanner_cleanup_calls_return:
  "(key, scanner_items, outcome) \<in> set (cleanup_calls scanner_cleanup groups m)
    \<Longrightarrow> \<exists>removed_paths. outcome = Inr removed_paths"
proof (induction groups arbitrary: m)
  case Nil
  then show ?case by simp
next
  case (Cons g groups)
  obtain key' its' where g: "g = (key', its')" by (cases g)
  obtain out m' where call: "scanner_cleanup (snd key') its' m = (out, m')"
    by (cases "scanner_cleanup (snd key') its' m")
  from Cons.prems g call
  have "(key, scanner_items, outcome) = (key', its', out)
      \<or> (key, scanner_items, outcome) \<in> set (cleanup_calls scanner_cleanup groups m')"
    by simp
  then show ?case
  proof
    assume "(key, scanner_items, outcome) = (key', its', out)"
    with call scanner_cleanup_returns [of "snd key'" its' m] show ?thesis by simp
  next
    assume "(key, scanner_items, outcome) \<in> set (cleanup_calls scanner_cleanup groups m')"
    then show ?thesis by (rule Cons.IH)
  qed
qed

text \<open>
  C5, as the code has it. In a cleanup that is not a dry run, every requested item
  whose category has an owning scanner (the first registered scanner of that category)
  is in the list passed to one call of that scanner's cleanup. When such a call
  returns, each item of its list whose path is among the returned paths is among the
  removed items, and each other item has a failure record with its path, the reason
  \<^verbatim>\<open>Cleanup failed\<close> and the name of the scanner. When the call raises, none of its
  items is among the removed items, and the report has the entry of the error list for
  that scanner instead of failure records. The removed items are exactly the items
  credited by the calls that returned, the failure records exactly theirs, the error
  list exactly the entries of the calls that raised, and the freed bytes are the sum of
  the sizes of the removed items. The inherited cleanup always returns, so under it
  every requested item with an owning scanner is either removed or recorded as failed.
\<close>

theorem cleanup_credits_returned_paths:
  "(item \<in> set its \<and> find_scanner (scanners mgr) (category item) 0 = Some key
      \<longrightarrow> (\<exists>scanner_items outcome.
            (key, scanner_items, outcome)
              \<in> set (cleanup_calls cm (group_items (scanners mgr) its []) m)
            \<and> item \<in> set scanner_items))
   \<and> ((key, scanner_items, Inr removed_paths)
        \<in> set (cleanup_calls cm (group_items (scanners mgr) its []) m)
      \<and> item \<in> set scanner_items
      \<longrightarrow> (if path item \<in> set removed_paths
           then item \<in> set (removed_items (fst (cleanup cm mgr its False new_id m)))
           else \<lparr>failed_path = path_str (path item), failed_error = ''Cleanup failed'',
                 failed_scanner = name (snd key)\<rparr>
                \<in> set (failed_items (fst (cleanup cm mgr its False new_id m)))))
   \<and> ((key, scanner_items, Inl e)
        \<in> set (cleanup_calls cm (group_items (scanners mgr) its []) m)
      \<and> item \<in> set scanner_items
      \<longrightarrow> item \<notin> set (removed_items (fst (cleanup cm mgr its False new_id m)))
        \<and> ''Cleanup failed for scanner '' @ name (snd key) @ '': '' @ exception_str e
          \<in> set (cleanup_errors (fst (cleanup cm mgr its False new_id m))))
   \<and> removed_items (fst (cleanup cm mgr its False new_id m))
     = concat (map credited (cleanup_calls cm (group_items (scanners mgr) its []) m))
   \<and> failed_items (fst (cleanup cm mgr its False new_id m))
     = concat (map failures (cleanup_calls cm (group_items (scanners mgr) its []) m))
   \<and> cleanup_errors (fst (cleanup cm mgr its False new_id m))
     = concat (map call_errors (cleanup_calls cm (group_items (scanners mgr) its []) m))
   \<and> total_freed (fst (cleanup cm mgr its False new_id m))
     = sum_list (map size_bytes (removed_items (fst (cleanup cm mgr its False new_id m))))
   \<and> total_removed (fst (cleanup cm mgr its False new_id m))
     = int (length (removed_items (fst (cleanup cm mgr its False new_id m))))
   \<and> (item \<in> set its \<and> find_scanner (scanners mgr) (category item) 0 = Some key
      \<longrightarrow> item \<in> set (removed_items (fst (cleanup scanner_cleanup mgr its False new_id m)))
        \<or> \<lparr>failed_path = path_str (path item), failed_error = ''Cleanup failed'',
             failed_scanner = name (snd key)\<rparr>
           \<in> set (failed_items (fst (cleanup scanner_cleanup mgr its False new_id m))))"
proof (intro conjI impI)
  show "\<exists>scanner_items outcome.
      (key, scanner_items, outcome)
        \<in> set (cleanup_calls cm (group_items (scanners mgr) its []) m)
      \<and> item \<in> set scanner_items"
    if "item \<in> set its \<and> find_scanner (scanners mgr) (category item) 0 = Some key"
    using that cleanup_dispatch [of item its mgr key cm m] by blast
  show "if path item \<in> set removed_paths
      then item \<in> set (removed_items (fst (cleanup cm mgr its False new_id m)))
      else \<lparr>failed_path = path_str (path item), failed_error = ''Cleanup failed'',
            failed_scanner = name (snd key)\<rparr>
           \<in> set (failed_items (fst (cleanup cm mgr its False new_id m)))"
    if "(key, scanner_items, Inr removed_paths)
        \<in> set (cleanup_calls cm (group_items (scanners mgr) its []) m)
      \<and> item \<in> set scanner_items"
    using that cleanup_outcome [of key scanner_items removed_paths cm mgr its m item new_id]
    by blast
  assume raised: "(key, scanner_items, Inl e)
      \<in> set (cleanup_calls cm (group_items (scanners mgr) its []) m)
    \<and> item \<in> set scanner_items"
  show "item \<notin> set (removed_items (fst (cleanup cm mgr its False new_id m)))"
    using raised cleanup_raised [of key scanner_items e cm mgr its m item new_id] by blast
  show "''Cleanup failed for scanner '' @ name (snd key) @ '': '' @ exception_str e
      \<in> set (cleanup_errors (fst (cleanup cm mgr its False new_id m)))"
    using raised cleanup_raised [of key scanner_items e cm mgr its m item new_id] by blast
next
  show "removed_items (fst (cleanup cm mgr its False new_id m))
     = concat (map credited (cleanup_calls cm (group_items (scanners mgr) its []) m))"
    and "failed_items (fst (cleanup cm mgr its False new_id m))
     = concat (map failures (cleanup_calls cm (group_items (scanners mgr) its []) m))"
    and "cleanup_errors (fst (cleanup cm mgr its False new_id m))
     = concat (map call_errors (cleanup_calls cm (group_items (scanners mgr) its []) m))"
    and "total_freed (fst (cleanup cm mgr its False new_id m))
     = sum_list (map size_bytes (removed_items (fst (cleanup cm mgr its False new_id m))))"
    and "total_removed (fst (cleanup cm mgr its False new_id m))
     = int (length (removed_items (fst (cleanup cm mgr its False new_id m))))"
    by (rule cleanup_report)+
  show "item \<in> set (removed_items (fst (cleanup scanner_cleanup mgr its False new_id m)))
      \<or> \<lparr>failed_path = path_str (path item), failed_error = ''Cleanup failed'',
           failed_scanner = name (snd key)\<rparr>
         \<in> set (failed_items (fst (cleanup scanner_cleanup mgr its False new_id m)))"
    if owned: "item \<in> set its \<and> find_scanner (scanners mgr) (category item) 0 = Some key"
  proof -
    from owned obtain its' outcome where call: "(key, its', outcome)
        \<in> set (cleanup_calls scanner_cleanup (group_items (scanners mgr) its []) m)"
      and mem: "item \<in> set its'"
      using cleanup_dispatch [of item its mgr key scanner_cleanup m] by blast
    from call obtain ps where "outcome = Inr ps"
      using scanner_cleanup_calls_return by blast
    with call mem cleanup_outcome [of key its' ps scanner_cleanup mgr its m item new_id]
    show ?thesis by (cases "path item \<in> set ps") simp_all
  qed
qed

lemma example_categories:
  "get_category temp_scanner = TEMP_FILES" "get_category chrome_scanner = BROWSER_CACHE"
  "get_category logs_scanner = SYSTEM_LOGS" "category cache_item = TEMP_FILES"
  "category log_item = SYSTEM_LOGS" "category cookie_item = BROWSER_COOKIES"
  by (simp_all add: temp_scanner_def chrome_scanner_def logs_scanner_def cache_item_def
      log_item_def cookie_item_def)

lemma example_paths:
  "path cache_item = [''tmp'', ''cache.bin'']" "path log_item = [''var'', ''log'', ''app.log'']"
  by (simp_all add: cache_item_def log_item_def)

lemma example_groups:
  "group_items (scanners three_scanners) [cache_item, log_item, cookie_item] []
    = [((0, temp_scanner), [cache_item]), ((2, logs_scanner), [log_item])]"
  by (simp add: scanners_three example_categories)

lemma example_calls:
  "cleanup_calls scanner_cleanup
      (group_items (scanners three_scanners) [cache_item, log_item, cookie_item] [])
      example_machine
    = [((0, temp_scanner), [cache_item], Inr [[''tmp'', ''cache.bin'']]),
       ((2, logs_scanner), [log_item], Inr [])]"
  unfolding example_groups
  by (simp add: scanner_cleanup_def example_scanners_supported example_paths
      remove_cache_bin remove_app_log)

lemma example_calls_raising:
  "cleanup_calls temp_cleanup_raises (group_items (scanners three_scanners) [cache_item] [])
      example_machine
    = [((0, temp_scanner), [cache_item], Inl (PyException ''disk detached''))]"
  by (simp add: scanners_three example_categories temp_cleanup_raises_def
      example_scanner_names)

text \<open>The cache file, the log file and the cookie database are requested. The temp
  scanner removes the cache file; the logs scanner cannot remove the log file, which
  gets a failure record; 10240 bytes are freed. When the cleanup of the temp scanner
  raises instead, the cache file is not among the removed items, and the error list has
  the entry for the temp scanner.\<close>

theorem cleanup_credits_returned_paths_witness:
  "log_item \<in> set [cache_item, log_item, cookie_item]
   \<and> find_scanner (scanners three_scanners) (category log_item) 0 = Some (2, logs_scanner)
   \<and> ((2, logs_scanner), [log_item], Inr [])
      \<in> set (cleanup_calls scanner_cleanup
          (group_items (scanners three_scanners) [cache_item, log_item, cookie_item] [])
          example_machine)
   \<and> \<lparr>failed_path = ''/var/log/app.log'', failed_error = ''Cleanup failed'',
       failed_scanner = ''SystemLogsScanner''\<rparr>
      \<in> set (failed_items (fst (cleanup scanner_cleanup three_scanners
          [cache_item, log_item, cookie_item] False ''1a2b3c4d'' example_machine)))
   \<and> removed_items (fst (cleanup scanner_cleanup three_scanners
          [cache_item, log_item, cookie_item] False ''1a2b3c4d'' example_machine))
     = [cache_item]
   \<and> total_freed (fst (cleanup scanner_cleanup three_scanners
          [cache_item, log_item, cookie_item] False ''1a2b3c4d'' example_machine)) = 10240
   \<and> ((0, temp_scanner), [cache_item], Inl (PyException ''disk detached''))
      \<in> set (cleanup_calls temp_cleanup_raises
          (group_items (scanners three_scanners) [cache_item] []) example_machine)
   \<and> cache_item \<notin> set (removed_items (fst (cleanup temp_cleanup_raises three_scanners
          [cache_item] False ''1a2b3c4d'' example_machine)))
   \<and> ''Cleanup failed for scanner SystemTempScanner: disk detached''
      \<in> set (cleanup_errors (fst (cleanup temp_cleanup_raises three_scanners
          [cache_item] False ''1a2b3c4d'' example_machine)))"
  using cleanup_credits_returned_paths [where item = log_item
      and its = "[cache_item, log_item, cookie_item]" and mgr = three_scanners
      and key = "(2, logs_scanner)" and cm = scanner_cleanup and m = example_machine
      and scanner_items = "[log_item]" and removed_paths = "[]" and new_id = "''1a2b3c4d''"
      and e = "PyException ''disk detached''"]
    cleanup_credits_returned_paths [where item = cache_item
      and its = "[cache_item]" and mgr = three_scanners
      and key = "(0, temp_scanner)" and cm = temp_cleanup_raises and m = example_machine
      and scanner_items = "[cache_item]" and removed_paths = "[]" and new_id = "''1a2b3c4d''"
      and e = "PyException ''disk detached''"]
  unfolding example_calls example_calls_raising
  by (simp add: credited_def failures_def failure_record_def example_paths example_sizes
      example_scanner_names path_str_def scanners_three example_categories call_errors_simps)

text \<open>C5, as the spec states it, fails: the cache file is dispatched to the temp
  scanner, whose cleanup raises and so returns no path; the report records no failure
  for the file, only the error of the scanner.\<close>

theorem raising_cleanup_records_no_failure:
  "find_scanner (scanners three_scanners) (category cache_item) 0 = Some (0, temp_scanner)
   \<and> cleanup temp_cleanup_raises three_scanners [cache_item] False ''1a2b3c4d''
        example_machine
     = (\<lparr>cleanup_id = ''1a2b3c4d'', total_removed = 0, total_freed = 0,
         removed_items = [], failed_items = [],
         cleanup_errors = [''Cleanup failed for scanner SystemTempScanner: disk detached'']\<rparr>,
        example_machine)"
  by (simp add: scanners_three example_categories cleanup_def temp_cleanup_raises_def
      example_scanner_names)

lemma group_items_owned:
  "group_items ss (filter (\<lambda>item. find_scanner ss (category item) 0 \<noteq> None) its) groups
    = group_items ss its groups"
  by (induction its arbitrary: groups) (auto split: option.splits)

text \<open>
  C1, what the code does instead. A requested item whose category no registered
  scanner owns is left out of every group, and nothing is recorded for it: the report
  and the machine are the same as if the item had not been requested. So it is for the
  cookie database that the Chrome scanner yields: its category is \<open>BROWSER_COOKIES\<close>,
  while the browser scanners declare \<open>BROWSER_CACHE\<close>. Requested alone, it gives a
  report with no removed item, no failure record and no error.
\<close>

theorem cleanup_ignores_unowned_items:
  "cleanup cm mgr its False new_id m
    = cleanup cm mgr
        (filter (\<lambda>item. find_scanner (scanners mgr) (category item) 0 \<noteq> None) its)
        False new_id m"
  by (simp only: cleanup_def group_items_owned if_False)

theorem cleanup_ignores_unowned_items_witness:
  "find_scanner (scanners three_scanners) (category cookie_item) 0 = None
   \<and> cleanup scanner_cleanup three_scanners [cookie_item] False ''1a2b3c4d'' example_machine
     = (\<lparr>cleanup_id = ''1a2b3c4d'', total_removed = 0, total_freed = 0,
         removed_items = [], failed_items = [], cleanup_errors = []\<rparr>, example_machine)"
  using cleanup_ignores_unowned_items [where cm = scanner_cleanup and mgr = three_scanners
      and its = "[cookie_item]" and new_id = "''1a2b3c4d''" and m = example_machine]
  by (simp add: scanners_three example_categories cleanup_def)

end
